(* ===== verification/Prelude.thy ===== *)
theory Prelude
  imports Main "HOL-Library.Word" "HOL-Library.Sublist"
begin

text \<open>
  What the components share: the machine integers and their overflow behaviour, the
  combinators of \<open>Result\<close> and \<open>Option\<close> the code chains calls with, the formatting of
  integers by \<open>Display\<close>, the standard library's \<open>Mutex\<close> with its poisoning, and the
  computations that pass a state and may stop with an error.

  A \<open>Result<T, E>\<close> is \<open>'e + 'a\<close> with \<open>Inl\<close> the error. A computation that may panic has
  type \<open>'a option\<close>, and \<open>None\<close> is the panic.
\<close>

named_theorems result_simps \<open>characteristic equations of the Result combinators\<close>
named_theorems display_simps \<open>definitions of the Display implementations\<close>

section \<open>Machine integers\<close>

type_synonym u8 = "8 word"
type_synonym u16 = "16 word"
type_synonym u32 = "32 word"
type_synonym usize = "64 word"
type_synonym bytes = "u8 list"

text \<open>
  Plain \<open>+\<close> and \<open>*\<close>: with overflow checks (a debug build) an overflow panics, without
  them (a release build) the result wraps around. \<open>oc\<close> says whether the checks are on.
\<close>

definition add_arith :: "bool \<Rightarrow> 'a::len word \<Rightarrow> 'a word \<Rightarrow> 'a word option" where
  "add_arith oc a b = (if oc \<and> 2 ^ LENGTH('a) \<le> unat a + unat b then None else Some (a + b))"

definition mul_arith :: "bool \<Rightarrow> 'a::len word \<Rightarrow> 'a word \<Rightarrow> 'a word option" where
  "mul_arith oc a b = (if oc \<and> 2 ^ LENGTH('a) \<le> unat a * unat b then None else Some (a * b))"

definition saturating_add :: "'a::len word \<Rightarrow> 'a word \<Rightarrow> 'a word" where
  "saturating_add a b = (if 2 ^ LENGTH('a) \<le> unat a + unat b then - 1 else a + b)"

lemma add_arith_no_overflow:
  fixes a b :: "'a::len word"
  assumes "unat a + unat b < 2 ^ LENGTH('a)"
  shows "add_arith oc a b = Some (a + b)" and "unat (a + b) = unat a + unat b"
  using assms by (simp_all add: add_arith_def unat_word_ariths)

lemma mul_arith_no_overflow:
  fixes a b :: "'a::len word"
  assumes "unat a * unat b < 2 ^ LENGTH('a)"
  shows "mul_arith oc a b = Some (a * b)" and "unat (a * b) = unat a * unat b"
  using assms by (simp_all add: mul_arith_def unat_word_ariths)

lemma unat_less_pow: "unat (w :: 'a::len word) < 2 ^ LENGTH('a)"
  by (rule unsigned_less)

lemma unat_minus_one_word: "unat (- 1 :: 'a::len word) = 2 ^ LENGTH('a) - 1"
  by (simp add: unsigned_minus_1_eq_mask mask_eq_exp_minus_1)

lemma unat_saturating_add:
  fixes a b :: "'a::len word"
  shows "unat (saturating_add a b) = min (unat a + unat b) (2 ^ LENGTH('a) - 1)"
  by (auto simp: saturating_add_def unat_minus_one_word unat_word_ariths min_def not_le)

section \<open>Result and Option\<close>

definition map_err :: "('e \<Rightarrow> 'f) \<Rightarrow> 'e + 'a \<Rightarrow> 'f + 'a" where
  "map_err f r = (case r of Inl e \<Rightarrow> Inl (f e) | Inr x \<Rightarrow> Inr x)"

definition ok_or :: "'e \<Rightarrow> 'a option \<Rightarrow> 'e + 'a" where
  "ok_or e v = (case v of None \<Rightarrow> Inl e | Some x \<Rightarrow> Inr x)"

definition and_then :: "'e + 'a \<Rightarrow> ('a \<Rightarrow> 'e + 'b) \<Rightarrow> 'e + 'b" where
  "and_then r f = (case r of Inl e \<Rightarrow> Inl e | Inr x \<Rightarrow> f x)"

definition unwrap_or :: "'a \<Rightarrow> 'a option \<Rightarrow> 'a" where
  "unwrap_or d v = (case v of None \<Rightarrow> d | Some x \<Rightarrow> x)"

lemma map_err_simps [simp, result_simps]:
  "map_err f (Inl e) = Inl (f e)" "map_err f (Inr x) = Inr x"
  "map_err f r = Inr x \<longleftrightarrow> r = Inr x"
  "map_err f r = Inl e' \<longleftrightarrow> (\<exists>e. r = Inl e \<and> e' = f e)"
  by (auto simp: map_err_def split: sum.splits)

lemma ok_or_simps [simp, result_simps]:
  "ok_or e None = Inl e" "ok_or e (Some x) = Inr x"
  "ok_or e v = Inr x \<longleftrightarrow> v = Some x" "ok_or e v = Inl e' \<longleftrightarrow> v = None \<and> e' = e"
  by (auto simp: ok_or_def split: option.splits)

lemma and_then_simps [simp, result_simps]:
  "and_then (Inl e) f = Inl e" "and_then (Inr x) f = f x"
  "and_then r f = Inr y \<longleftrightarrow> (\<exists>x. r = Inr x \<and> f x = Inr y)"
  by (auto simp: and_then_def split: sum.splits)

lemma unwrap_or_simps [simp]: "unwrap_or d None = d" "unwrap_or d (Some x) = x"
  by (simp_all add: unwrap_or_def)

section \<open>Formatting of unsigned integers\<close>

definition digit :: "nat \<Rightarrow> char" where
  "digit n = char_of (48 + n)"

fun dec :: "nat \<Rightarrow> string" where
  "dec n = (if n < 10 then [digit n] else dec (n div 10) @ [digit (n mod 10)])"

declare dec.simps [simp del]

definition is_digit :: "char \<Rightarrow> bool" where
  "is_digit c \<longleftrightarrow> 48 \<le> (of_char c :: nat) \<and> (of_char c :: nat) < 58"

definition undec :: "string \<Rightarrow> nat" where
  "undec s = foldl (\<lambda>a c. 10 * a + (of_char c - 48)) 0 s"

lemma of_char_digit [simp]: "n < 10 \<Longrightarrow> (of_char (digit n) :: nat) = 48 + n"
  by (simp add: digit_def)

lemma dec_digits: "c \<in> set (dec n) \<Longrightarrow> is_digit c"
proof (induction n rule: dec.induct)
  case (1 n)
  then show ?case
    by (cases "n < 10") (auto simp: dec.simps [of n] is_digit_def)
qed

lemma dec_not_Nil [simp]: "dec n \<noteq> []"
  by (subst dec.simps) simp

lemma undec_dec [simp]: "undec (dec n) = n"
proof (induction n rule: dec.induct)
  case (1 n)
  then show ?case
    by (cases "n < 10") (simp_all add: dec.simps [of n] undec_def)
qed

lemma dec_inject [simp]: "dec m = dec n \<longleftrightarrow> m = n"
  using undec_dec by metis

lemma digits_then_inject:
  assumes "\<And>c. c \<in> set xs \<Longrightarrow> P c" and "\<And>c. c \<in> set ys \<Longrightarrow> P c" and "\<not> P z"
    and "xs @ z # us = ys @ z # vs"
  shows "xs = ys \<and> us = vs"
proof -
  have "takeWhile P (xs @ z # us) = xs" "takeWhile P (ys @ z # vs) = ys"
    using assms(1-3) by simp_all
  with assms(4) show ?thesis by simp
qed

lemma dec_then_inject [simp]:
  assumes "\<not> is_digit z"
  shows "dec m @ z # us = dec n @ z # vs \<longleftrightarrow> m = n \<and> us = vs"
proof
  assume "dec m @ z # us = dec n @ z # vs"
  from digits_then_inject [where P = is_digit, OF dec_digits dec_digits assms this]
  show "m = n \<and> us = vs" by simp
qed simp

lemma dec_hd_digit: "is_digit (hd (dec n))"
  by (rule dec_digits [of _ n]) simp

definition display_word :: "'a::len word \<Rightarrow> string" where
  "display_word n = dec (unat n)"

lemma display_word_inject [simp]: "display_word m = display_word n \<longleftrightarrow> m = n"
  by (auto simp: display_word_def intro: unsigned_word_eqI)

lemma display_word_then_inject [simp]:
  "\<not> is_digit z \<Longrightarrow>
    display_word m @ z # us = display_word n @ z # vs \<longleftrightarrow> m = n \<and> us = vs"
  by (auto simp: display_word_def intro: unsigned_word_eqI)

lemma not_is_digit_space [simp]: "\<not> is_digit CHR '' ''"
  by (simp add: is_digit_def)

section \<open>A mutex of the standard library\<close>

text \<open>
  \<open>std::sync::Mutex\<close>: a lock whose holder panicked is poisoned, and locking it is an error.
\<close>

record 'a mutex =
  poisoned :: bool
  guarded :: 'a

definition mutex_new :: "'a \<Rightarrow> 'a mutex" where
  "mutex_new x = \<lparr>poisoned = False, guarded = x\<rparr>"

definition mutex_lock :: "'a mutex \<Rightarrow> unit + 'a" where
  "mutex_lock m = (if poisoned m then Inl () else Inr (guarded m))"

lemma mutex_simps [simp]:
  "poisoned (mutex_new x) = False" "guarded (mutex_new x) = x"
  "mutex_lock (mutex_new x) = Inr x"
  by (simp_all add: mutex_new_def mutex_lock_def)

section \<open>Computations with a state and an error\<close>

text \<open>
  The body of a method that changes \<open>self\<close> and leaves by \<open>?\<close> at the first error.
\<close>

type_synonym ('s, 'e, 'a) comp = "'s \<Rightarrow> ('e + 'a) \<times> 's"

definition returnE :: "'a \<Rightarrow> ('s, 'e, 'a) comp" where
  "returnE x = (\<lambda>s. (Inr x, s))"

definition throwE :: "'e \<Rightarrow> ('s, 'e, 'a) comp" where
  "throwE e = (\<lambda>s. (Inl e, s))"

definition liftE :: "'e + 'a \<Rightarrow> ('s, 'e, 'a) comp" where
  "liftE r = (\<lambda>s. (r, s))"

definition getE :: "('s \<Rightarrow> 'e + 'a) \<Rightarrow> ('s, 'e, 'a) comp" where
  "getE f = (\<lambda>s. (f s, s))"

definition modifyE :: "('s \<Rightarrow> 's) \<Rightarrow> ('s, 'e, unit) comp" where
  "modifyE f = (\<lambda>s. (Inr (), f s))"

definition bindE :: "('s, 'e, 'a) comp \<Rightarrow> ('a \<Rightarrow> ('s, 'e, 'b) comp) \<Rightarrow> ('s, 'e, 'b) comp" where
  "bindE m f = (\<lambda>s. case m s of (Inl e, s') \<Rightarrow> (Inl e, s') | (Inr x, s') \<Rightarrow> f x s')"

lemma comp_simps [simp]:
  "returnE x s = (Inr x, s)" "throwE e s = (Inl e, s)" "liftE r s = (r, s)"
  "getE f s = (f s, s)" "modifyE g s = (Inr (), g s)"
  by (simp_all add: returnE_def throwE_def liftE_def getE_def modifyE_def)

lemma bindE_simps [simp]:
  "m s = (Inl e, s') \<Longrightarrow> bindE m f s = (Inl e, s')"
  "m s = (Inr x, s') \<Longrightarrow> bindE m f s = f x s'"
  by (simp_all add: bindE_def)

lemma bindE_cases:
  obtains (Err) e s' where "m s = (Inl e, s')" "bindE m f s = (Inl e, s')"
  | (Ok) x s' where "m s = (Inr x, s')" "bindE m f s = f x s'"
  by (cases "m s" rule: prod.exhaust, rename_tac r s', case_tac r) auto

text \<open>
  What a computation does to the state, whether it ends with a result or an error: a relation
  between the state before and after, which is kept by \<open>bindE\<close> if it is transitive.
\<close>

definition keeps :: "('s \<Rightarrow> 's \<Rightarrow> bool) \<Rightarrow> ('s \<Rightarrow> 'a \<times> 's) \<Rightarrow> bool" where
  "keeps R m \<longleftrightarrow> (\<forall>s r s'. m s = (r, s') \<longrightarrow> R s s')"

lemma keepsI: "(\<And>s r s'. m s = (r, s') \<Longrightarrow> R s s') \<Longrightarrow> keeps R m"
  by (simp add: keeps_def)

lemma keepsD: "keeps R m \<Longrightarrow> m s = (r, s') \<Longrightarrow> R s s'"
  by (auto simp: keeps_def)

lemma keeps_return: "(\<And>s. R s s) \<Longrightarrow> keeps R (\<lambda>s. (r, s))"
  by (simp add: keeps_def)

lemma keeps_then:
  assumes "\<And>s t u. R s t \<Longrightarrow> R t u \<Longrightarrow> R s u" and "keeps R m" and "\<And>r. keeps R (k r)"
  shows "keeps R (\<lambda>s. case m s of (r, s1) \<Rightarrow> k r s1)"
proof (rule keepsI)
  fix s r s'
  assume "(case m s of (r, s1) \<Rightarrow> k r s1) = (r, s')"
  then obtain q s1 where "m s = (q, s1)" and "k q s1 = (r, s')" by (cases "m s") auto
  from assms(1) [OF keepsD [OF assms(2) this(1)] keepsD [OF assms(3) this(2)]] show "R s s'" .
qed

lemma bindE_then:
  "bindE m f = (\<lambda>s. case m s of (r, s1) \<Rightarrow> (case r of Inl e \<Rightarrow> \<lambda>s. (Inl e, s) | Inr x \<Rightarrow> f x) s1)"
  by (auto simp: bindE_def fun_eq_iff split: prod.splits sum.splits)

lemma keeps_bind:
  assumes "\<And>s t u. R s t \<Longrightarrow> R t u \<Longrightarrow> R s u" and "keeps R m" and "\<And>x. keeps R (f x)"
  shows "keeps R (bindE m f)"
proof (rule keepsI)
  fix s r s'
  assume eq: "bindE m f s = (r, s')"
  show "R s s'"
  proof (cases rule: bindE_cases [of m s f])
    case (Err e s1)
    with eq keepsD [OF assms(2) Err(1)] show ?thesis by simp
  next
    case (Ok x s1)
    with eq have "f x s1 = (r, s')" by simp
    from assms(1) [OF keepsD [OF assms(2) Ok(1)] keepsD [OF assms(3) this]] show ?thesis .
  qed
qed

end
