(* ===== verification/Sockets.thy ===== *)
theory Sockets
  imports Prelude
begin

text \<open>
  Socket addresses of the standard library (\<open>IpAddr\<close>, \<open>SocketAddr\<close> and their \<open>Display\<close>,
  which the configuration and the actions print) and \<open>to_bitcoin_socket_addr\<close> of
  \<open>src/src/node/mod.rs\<close>.
\<close>

datatype IpAddr =
    V4 u8 u8 u8 u8
  | V6 u16 u16 u16 u16 u16 u16 u16 u16

text \<open>An IPv6 socket also carries a flow label and a scope.\<close>

datatype SocketAddr =
    SocketAddrV4 u8 u8 u8 u8 (sport: u16)
  | SocketAddrV6 u16 u16 u16 u16 u16 u16 u16 u16 (sport: u16) (flowinfo: u32) (scope_id: u32)

fun ip :: "SocketAddr \<Rightarrow> IpAddr" where
  "ip (SocketAddrV4 a b c d _) = V4 a b c d"
| "ip (SocketAddrV6 a b c d e f g h _ _ _) = V6 a b c d e f g h"

fun port :: "SocketAddr \<Rightarrow> u16" where
  "port (SocketAddrV4 _ _ _ _ p) = p"
| "port (SocketAddrV6 _ _ _ _ _ _ _ _ p _ _) = p"

section \<open>Display\<close>

definition hex_digit :: "nat \<Rightarrow> char" where
  "hex_digit n = (if n < 10 then digit n else char_of (87 + n))"

fun hex :: "nat \<Rightarrow> string" where
  "hex n = (if n < 16 then [hex_digit n] else hex (n div 16) @ [hex_digit (n mod 16)])"

declare hex.simps [simp del]

fun colon_join :: "u16 list \<Rightarrow> string" where
  "colon_join [] = []"
| "colon_join [x] = hex (unat x)"
| "colon_join (x # xs) = hex (unat x) @ '':'' @ colon_join xs"

text \<open>
  The first longest run of zero segments, as (start, length): the loop of
  \<open>Ipv6Addr::fmt\<close> over the enumerated segments with the current and the longest span.
\<close>

fun zero_span :: "nat \<Rightarrow> nat \<times> nat \<Rightarrow> nat \<times> nat \<Rightarrow> u16 list \<Rightarrow> nat \<times> nat" where
  "zero_span i cur longest [] = longest"
| "zero_span i cur longest (x # xs) =
     (if x = 0
      then let cur' = (if snd cur = 0 then i else fst cur, snd cur + 1)
           in zero_span (Suc i) cur' (if snd cur' > snd longest then cur' else longest) xs
      else zero_span (Suc i) (0, 0) longest xs)"

definition display_Ipv4 :: "u8 \<Rightarrow> u8 \<Rightarrow> u8 \<Rightarrow> u8 \<Rightarrow> string" where
  "display_Ipv4 a b c d =
     display_word a @ ''.'' @ display_word b @ ''.'' @ display_word c @ ''.'' @ display_word d"

fun display_IpAddr :: "IpAddr \<Rightarrow> string" where
  "display_IpAddr (V4 a b c d) = display_Ipv4 a b c d"
| "display_IpAddr (V6 a b c d e f g h) =
     (if a = 0 \<and> b = 0 \<and> c = 0 \<and> d = 0 \<and> e = 0 \<and> f = 0xFFFF
      then ''::ffff:'' @
        display_Ipv4 (ucast (drop_bit 8 g)) (ucast g) (ucast (drop_bit 8 h)) (ucast h)
      else
        (let segments = [a, b, c, d, e, f, g, h]; zeroes = zero_span 0 (0, 0) (0, 0) segments
         in if snd zeroes > 1
            then colon_join (take (fst zeroes) segments) @ ''::'' @
              colon_join (drop (fst zeroes + snd zeroes) segments)
            else colon_join segments))"

fun display_SocketAddr :: "SocketAddr \<Rightarrow> string" where
  "display_SocketAddr (SocketAddrV4 a b c d p) =
     display_IpAddr (V4 a b c d) @ '':'' @ display_word p"
| "display_SocketAddr (SocketAddrV6 a b c d e f g h p fl sc) =
     ''['' @ display_IpAddr (V6 a b c d e f g h) @
       (if sc = 0 then [] else CHR ''%'' # display_word sc) @ '']:'' @ display_word p"

lemma display_loopback: "display_SocketAddr (SocketAddrV6 0 0 0 0 0 0 0 1 8333 0 0) = ''[::1]:8333''"
  by (simp add: hex.simps dec.simps display_word_def hex_digit_def digit_def char_of_def bit_0)

lemma display_V4_inject:
  "display_SocketAddr (SocketAddrV4 a b c d p) = display_SocketAddr (SocketAddrV4 a' b' c' d' p')
   \<longleftrightarrow> a = a' \<and> b = b' \<and> c = c' \<and> d = d' \<and> p = p'"
  by (auto simp: is_digit_def display_Ipv4_def)

section \<open>Conversion for the wire\<close>

text \<open>
  \<open>AddrV2\<close> and \<open>BitcoinSocketAddr\<close> belong to the libraries; the code builds values of the two
  constructors below only.
\<close>

datatype AddrV2 =
    Ipv4 u8 u8 u8 u8
  | Ipv6 u16 u16 u16 u16 u16 u16 u16 u16

datatype BitcoinSocketAddr = BitcoinSocketAddr (address: AddrV2) (bport: u16)

definition to_bitcoin_socket_addr :: "SocketAddr \<Rightarrow> BitcoinSocketAddr" where
  "to_bitcoin_socket_addr socket =
     (let address = (case ip socket of V4 a b c d \<Rightarrow> Ipv4 a b c d
        | V6 a b c d e f g h \<Rightarrow> Ipv6 a b c d e f g h)
      in BitcoinSocketAddr address (port socket))"

text \<open>
  Two sockets name the same peer on the wire exactly when they have the same IP address and
  port; the scope and the flow label of an IPv6 socket do not count.
\<close>

theorem to_bitcoin_socket_addr_eq_iff:
  "to_bitcoin_socket_addr s = to_bitcoin_socket_addr t \<longleftrightarrow> ip s = ip t \<and> port s = port t"
  by (auto simp: to_bitcoin_socket_addr_def Let_def split: IpAddr.splits)

end
