(* ===== verification/Actions.thy ===== *)
theory Actions
  imports Sockets
begin

text \<open>
  The actions of \<open>src/src/node/mod.rs\<close>: what the node can be doing on behalf of its callers,
  the set of actions in flight with \<open>track_action\<close> and \<open>untrack_action\<close>, and the protocol
  that calls follow around that set.
\<close>

type_synonym BlockHash = "256 word"
type_synonym Txid = "256 word"

datatype Action =
    ConnectingToPeer SocketAddr
  | DisconnectingFromPeer SocketAddr
  | RemovingPeer SocketAddr
  | Pinging
  | FetchingBlock BlockHash
  | FetchingBlocks usize
  | BroadcastingTransaction Txid
  | MatchingFilters

text \<open>The text of a hash is the library's, a parameter.\<close>

fun display_Action :: "(256 word \<Rightarrow> string) \<Rightarrow> Action \<Rightarrow> string" where
  "display_Action hash_text (ConnectingToPeer s) = ''Connecting to peer='' @ display_SocketAddr s"
| "display_Action hash_text (DisconnectingFromPeer s) =
     ''Disconnecting from peer='' @ display_SocketAddr s"
| "display_Action hash_text (RemovingPeer s) = ''Removing peer='' @ display_SocketAddr s"
| "display_Action hash_text Pinging = ''Pinging all peers''"
| "display_Action hash_text (FetchingBlock h) = ''Fetching block with hash='' @ hash_text h"
| "display_Action hash_text (FetchingBlocks n) = ''Fetching '' @ display_word n @ '' blocks''"
| "display_Action hash_text (BroadcastingTransaction t) =
     ''Broadcasting transaction with txid='' @ hash_text t"
| "display_Action hash_text MatchingFilters = ''Matching filters to block hashes''"

section \<open>The set of actions in flight\<close>

definition track :: "Action \<Rightarrow> Action set \<Rightarrow> Action set" where
  "track a A = insert a A"

definition untrack :: "Action \<Rightarrow> Action set \<Rightarrow> Action set" where
  "untrack a A = A - {a}"

lemma track_untrack [simp]:
  "a \<in> track a A" "a \<notin> untrack a A" "untrack a (track a A) = A - {a}"
  "b \<noteq> a \<Longrightarrow> (b \<in> track a A) = (b \<in> A)" "b \<noteq> a \<Longrightarrow> (b \<in> untrack a A) = (b \<in> A)"
  by (auto simp: track_def untrack_def)

text \<open>
  Every method that talks to the inner node tracks its action, awaits, and untracks it. Calls
  run concurrently, and a call whose future is dropped while it awaits never reaches its
  \<open>untrack_action\<close>. \<open>running\<close> maps the calls that are really in progress to their action.
\<close>

datatype call_event = Begin nat Action | Complete nat | Dropped nat

record flight =
  tracked :: "Action set"
  running :: "nat \<rightharpoonup> Action"

definition no_calls :: flight where
  "no_calls = \<lparr>tracked = {}, running = Map.empty\<rparr>"

fun flight_step :: "flight \<Rightarrow> call_event \<Rightarrow> flight" where
  "flight_step f (Begin i a) = f\<lparr>tracked := track a (tracked f), running := (running f)(i \<mapsto> a)\<rparr>"
| "flight_step f (Complete i) =
     (case running f i of
        None \<Rightarrow> f
      | Some a \<Rightarrow> f\<lparr>tracked := untrack a (tracked f), running := (running f)(i := None)\<rparr>)"
| "flight_step f (Dropped i) = f\<lparr>running := (running f)(i := None)\<rparr>"

fun flight_run :: "flight \<Rightarrow> call_event list \<Rightarrow> flight" where
  "flight_run f [] = f"
| "flight_run f (e # es) = flight_run (flight_step f e) es"

text \<open>A call gets a new number, and its action is not the action of a call in progress.\<close>

fun separate_event :: "flight \<Rightarrow> call_event \<Rightarrow> bool" where
  "separate_event f (Begin i a) \<longleftrightarrow> running f i = None \<and> a \<notin> ran (running f)"
| "separate_event f (Complete i) \<longleftrightarrow> True"
| "separate_event f (Dropped i) \<longleftrightarrow> False"

fun separate_calls :: "flight \<Rightarrow> call_event list \<Rightarrow> bool" where
  "separate_calls f [] = True"
| "separate_calls f (e # es) \<longleftrightarrow> separate_event f e \<and> separate_calls (flight_step f e) es"

definition accurate :: "flight \<Rightarrow> bool" where
  "accurate f \<longleftrightarrow> tracked f = ran (running f) \<and> inj_on (running f) (dom (running f))"

lemma ran_map_del:
  "m i = Some a \<Longrightarrow> inj_on m (dom m) \<Longrightarrow> ran (m(i := None)) = ran m - {a}"
  unfolding ran_def inj_on_def dom_def by (auto, metis option.inject)

lemma flight_step_accurate:
  assumes "accurate f" and "separate_event f e"
  shows "accurate (flight_step f e)"
proof (cases e)
  case (Begin i a)
  with assms have "inj_on ((running f)(i \<mapsto> a)) (dom ((running f)(i \<mapsto> a)))"
    by (auto simp: accurate_def inj_on_def dom_def ran_def)
  with Begin assms show ?thesis by (simp add: accurate_def track_def)
next
  case (Complete i)
  with assms show ?thesis
    by (auto simp: accurate_def untrack_def ran_map_del inj_on_def dom_def split: option.splits)
next
  case (Dropped i)
  with assms show ?thesis by simp
qed

lemma flight_run_accurate: "accurate f \<Longrightarrow> separate_calls f es \<Longrightarrow> accurate (flight_run f es)"
  by (induction es arbitrary: f) (auto simp: flight_step_accurate)

text \<open>
  As long as no call is dropped and no two calls with the same action overlap, the tracked
  set is exactly the set of actions in progress, at every moment.
\<close>

theorem tracked_actions_exact:
  assumes "separate_calls no_calls es"
  shows "tracked (flight_run no_calls es) = ran (running (flight_run no_calls es))"
proof -
  have "accurate no_calls" by (simp add: accurate_def no_calls_def)
  from flight_run_accurate [OF this assms] show ?thesis by (simp add: accurate_def)
qed

theorem tracked_actions_exact_witness:
  "tracked (flight_run no_calls [Begin 0 Pinging, Begin 1 MatchingFilters, Complete 0]) = {MatchingFilters}"
  using tracked_actions_exact [of "[Begin 0 Pinging, Begin 1 MatchingFilters, Complete 0]"]
  by (simp add: no_calls_def ran_def untrack_def track_def)

text \<open>
  Outside that discipline the set is wrong in both directions. Of two overlapping calls with
  the same action, the first to complete removes the action of the other; and the action of a
  dropped call stays in the set although nothing runs.
\<close>

theorem tracked_actions_wrong:
  "tracked (flight_run no_calls [Begin 0 a, Begin 1 a, Complete 0]) = {} \<and>
   ran (running (flight_run no_calls [Begin 0 a, Begin 1 a, Complete 0])) = {a} \<and>
   tracked (flight_run no_calls [Begin 0 a, Dropped 0]) = {a} \<and>
   ran (running (flight_run no_calls [Begin 0 a, Dropped 0])) = {}"
  by (auto simp: no_calls_def track_def untrack_def ran_def)

end
