(* ===== verification/Fsm.thy ===== *)
theory Fsm
  imports Prelude
begin

text \<open>
  \<open>src/src/node/fsm.rs\<close>: the states of the node, their \<open>Display\<close>, and the next-state
  function, with the body of the polling task of \<open>Node::run\<close>
  (\<open>src/src/node/mod.rs\<close>) that calls it. The \<open>warn!\<close> lines are logging and are left out.
\<close>

section \<open>States and the next-state function\<close>

definition OPERATIONAL_TOLERANCE :: u32 where
  "OPERATIONAL_TOLERANCE = 6"

datatype State =
    Inactive
  | Active
  | DnsBootstrapping
  | HeaderSync u32
  | InitialBlockDownload u32 u32
  | CompactBlockFilterDownload u32
  | Backfill
  | Operational
  | ShuttingDown

fun display_State :: "State \<Rightarrow> string" where
  "display_State Inactive = ''Inactive''"
| "display_State Active = ''Active''"
| "display_State DnsBootstrapping = ''Address Manager Bootstrap''"
| "display_State (HeaderSync h) = ''Header Sync at height='' @ display_word h"
| "display_State (InitialBlockDownload c n) =
     ''IBD at chain_height='' @ display_word c @ '' and node_height='' @ display_word n"
| "display_State (CompactBlockFilterDownload f) =
     ''CBF Download at filter_height='' @ display_word f"
| "display_State Backfill = ''Backfilling''"
| "display_State Operational = ''Operational''"
| "display_State ShuttingDown = ''Shutting Down''"

text \<open>
  \<open>compute_next_state\<close>. The addition \<open>node_height + OPERATIONAL_TOLERANCE\<close> is a plain
  \<open>u32\<close> addition, so the function may panic where overflow checks (\<open>oc\<close>) are on.
\<close>

definition compute_next_state :: "bool \<Rightarrow> bool \<Rightarrow> State \<Rightarrow> u32 \<Rightarrow> u32 \<Rightarrow> u32 \<Rightarrow> State option" where
  "compute_next_state oc wire_ready current_state nh ch fh0 =
     (let fh = (if fh0 > nh then nh else fh0) in
      case current_state of
        ShuttingDown \<Rightarrow> Some ShuttingDown
      | Inactive \<Rightarrow> Some Inactive
      | DnsBootstrapping \<Rightarrow> Some DnsBootstrapping
      | Backfill \<Rightarrow> Some Backfill
      | _ \<Rightarrow>
          if \<not> wire_ready then Some Active
          else if nh = 0 \<and> ch > 0 then Some (HeaderSync ch)
          else
            (case add_arith oc nh OPERATIONAL_TOLERANCE of
              None \<Rightarrow> None
            | Some limit \<Rightarrow>
                if limit < ch then Some (InitialBlockDownload ch nh)
                else if fh < ch then Some (CompactBlockFilterDownload fh)
                else if nh > 0 then Some Operational
                else Some Active))"

text \<open>The states whose next state is decided elsewhere.\<close>

fun frozen :: "State \<Rightarrow> bool" where
  "frozen ShuttingDown = True"
| "frozen Inactive = True"
| "frozen DnsBootstrapping = True"
| "frozen Backfill = True"
| "frozen _ = False"

lemma compute_next_state_frozen [simp]:
  "frozen s \<Longrightarrow> compute_next_state oc w s nh ch fh = Some s"
  by (cases s) (auto simp: compute_next_state_def Let_def)

lemma compute_next_state_not_frozen:
  "\<not> frozen s \<Longrightarrow> compute_next_state oc w s nh ch fh =
     compute_next_state oc w Active nh ch fh"
  by (cases s) (auto simp: compute_next_state_def Let_def)

section \<open>An abstract account of the synchronisation phases\<close>

text \<open>
  What the phase of a node is, over unbounded heights: the header tip \<open>c\<close>, the validated
  tip \<open>n\<close> and the filter tip \<open>f\<close>. A node that has any block left to validate or any filter
  left to download is not operational.
\<close>

datatype phase = Starting | Headers | Blocks | Filters | Synced

definition phase_of :: "bool \<Rightarrow> nat \<Rightarrow> nat \<Rightarrow> nat \<Rightarrow> phase" where
  "phase_of w n c f =
     (if \<not> w \<or> n = 0 \<and> c = 0 then Starting
      else if n = 0 then Headers
      else if n + 6 < c then Blocks
      else if n < c \<or> f < c then Filters
      else Synced)"

fun state_phase :: "State \<Rightarrow> phase" where
  "state_phase (HeaderSync _) = Headers"
| "state_phase (InitialBlockDownload _ _) = Blocks"
| "state_phase (CompactBlockFilterDownload _) = Filters"
| "state_phase Operational = Synced"
| "state_phase _ = Starting"

lemma tolerance_no_overflow:
  fixes nh :: u32
  assumes "unat nh < 2 ^ 32 - 6"
  shows "add_arith oc nh OPERATIONAL_TOLERANCE = Some (nh + 6)" and "unat (nh + 6) = unat nh + 6"
  using add_arith_no_overflow [where a = nh and b = 6] assms by (simp_all add: OPERATIONAL_TOLERANCE_def)

lemma compute_next_state_Active:
  assumes "unat nh < 2 ^ 32 - 6"
  shows "compute_next_state oc w Active nh ch fh = Some
     (if \<not> w then Active
      else if nh = 0 \<and> ch > 0 then HeaderSync ch
      else if unat nh + 6 < unat ch then InitialBlockDownload ch nh
      else if min fh nh < ch then CompactBlockFilterDownload (min fh nh)
      else if nh > 0 then Operational else Active)"
  by (auto simp: compute_next_state_def Let_def tolerance_no_overflow [OF assms] word_less_nat_alt
      min_def not_le word_le_nat_alt)


text \<open>
  The tolerance has no effect: a node that is one to six blocks behind the header tip is
  never reported operational. The filter height was clamped to the node height, so it is below
  the chain height and the state is the filter download.
\<close>

theorem tolerance_never_operational:
  assumes "\<not> frozen s" and "nh > 0" and "unat nh < unat ch" and "unat ch \<le> unat nh + 6"
    and "unat nh < 2 ^ 32 - 6"
  shows "compute_next_state oc True s nh ch fh = Some (CompactBlockFilterDownload (min fh nh))"
proof -
  have "min fh nh < ch" using assms(3) by (auto simp: word_less_nat_alt word_le_nat_alt min_def)
  with assms show ?thesis
    by (auto simp: compute_next_state_not_frozen [OF assms(1)] compute_next_state_Active)
qed

theorem tolerance_never_operational_witness:
  "compute_next_state True True Operational 100 101 101 = Some (CompactBlockFilterDownload 100)"
proof -
  have "min 101 (100 :: u32) = 100" by simp
  with tolerance_never_operational [of Operational 100 101 True 101] show ?thesis by simp
qed


text \<open>
  C37. Within six of the largest height the plain addition overflows: a build with overflow
  checks panics, and one without them reports a fully synchronised node as downloading blocks.
\<close>

theorem tolerance_overflow:
  assumes "\<not> frozen s" and "2 ^ 32 - 6 \<le> unat nh"
  shows "compute_next_state True True s nh ch fh = None \<and>
    compute_next_state False True s nh nh nh = Some (InitialBlockDownload nh nh)"
proof -
  from assms(2) have over: "2 ^ 32 \<le> unat nh + 6" and pos: "nh \<noteq> 0" by auto
  have lt: "unat nh < 2 ^ 32" using unat_less_pow [of nh] by simp
  with over have "unat (nh + 6) = unat nh + 6 - 2 ^ 32"
    by (simp add: unat_word_ariths mod_if)
  with lt assms(2) have wrap: "nh + 6 < nh" by (simp add: word_less_nat_alt)
  have "compute_next_state True True s nh ch fh = None"
    unfolding compute_next_state_not_frozen [OF assms(1)]
    using over pos by (simp add: compute_next_state_def Let_def add_arith_def OPERATIONAL_TOLERANCE_def)
  moreover have "compute_next_state False True s nh nh nh = Some (InitialBlockDownload nh nh)"
    unfolding compute_next_state_not_frozen [OF assms(1)]
    using wrap pos by (simp add: compute_next_state_def Let_def add_arith_def OPERATIONAL_TOLERANCE_def)
  ultimately show ?thesis ..
qed

theorem tolerance_overflow_witness:
  "compute_next_state True True Operational 0xFFFFFFFF 1 1 = None \<and>
   compute_next_state False True Operational 0xFFFFFFFF 0xFFFFFFFF 0xFFFFFFFF =
     Some (InitialBlockDownload 0xFFFFFFFF 0xFFFFFFFF)"
  using tolerance_overflow [where s = Operational and nh = "0xFFFFFFFF" and ch = 1 and fh = 1] by simp

text \<open>
  Two states with the same text are the same state, heights included: what a user reads
  identifies the state.
\<close>

theorem display_State_inject: "display_State s = display_State t \<longleftrightarrow> s = t"
proof
  assume "display_State s = display_State t"
  then show "s = t"
    by (cases s; cases t) simp_all
qed simp

section \<open>One poll of the status task\<close>

text \<open>
  What one round of the polling task reads: the peers of the inner node, the best block, the
  validation index and the height of the filter store, each of which may fail. The body of the
  \<open>sleep\<close> branch leaves by \<open>continue\<close> at the first failure of a height; otherwise it changes
  the state under \<open>send_if_modified\<close>, whose closure says whether receivers are woken.
\<close>

record ('x, 'p, 'h) tips =
  peer_info :: "'x + 'p list"
  best_block :: "'x + u32 \<times> 'h"
  validation_index :: "'x + u32"
  filter_tip :: "'x + u32"

definition wire_ready :: "('x, 'p, 'h) tips \<Rightarrow> bool" where
  "wire_ready o1 = (case peer_info o1 of Inl _ \<Rightarrow> False | Inr peers \<Rightarrow> peers \<noteq> [])"

definition send_next_state :: "bool \<Rightarrow> bool \<Rightarrow> u32 \<Rightarrow> u32 \<Rightarrow> u32 \<Rightarrow> State \<Rightarrow> (State \<times> bool) option" where
  "send_next_state oc ready node_tip chain_tip ftip current_state =
     (if current_state = ShuttingDown then Some (current_state, False)
      else
        (case compute_next_state oc ready current_state node_tip chain_tip ftip of
           None \<Rightarrow> None
         | Some next_state \<Rightarrow>
             if current_state = next_state then Some (current_state, False)
             else Some (next_state, True)))"

definition status_poll :: "bool \<Rightarrow> ('x, 'p, 'h) tips \<Rightarrow> State \<Rightarrow> (State \<times> bool) option" where
  "status_poll oc o1 current_state =
     (let ready = wire_ready o1 in
      case best_block o1 of
        Inl _ \<Rightarrow> Some (current_state, False)
      | Inr (chain_tip, _) \<Rightarrow>
          (case validation_index o1 of
             Inl _ \<Rightarrow> Some (current_state, False)
           | Inr node_tip \<Rightarrow>
               (case filter_tip o1 of
                  Inl _ \<Rightarrow> Some (current_state, False)
                | Inr ftip \<Rightarrow> send_next_state oc ready node_tip chain_tip ftip current_state)))"

lemma send_next_state_cases:
  assumes "send_next_state oc w nh ch fh s = Some (t, b)"
  shows "b = (s \<noteq> t)" and "frozen s \<Longrightarrow> t = s"
    and "\<not> frozen s \<Longrightarrow> compute_next_state oc w s nh ch fh = Some t"
  using assms by (auto simp: send_next_state_def split: if_splits option.splits)

lemma compute_next_state_result:
  assumes "compute_next_state oc w s nh ch fh = Some t" and "\<not> frozen s"
  shows "\<not> frozen t"
  using assms(1) unfolding compute_next_state_not_frozen [OF assms(2)]
  by (auto simp: compute_next_state_def Let_def split: if_splits option.splits)

lemma status_poll_cases:
  assumes "status_poll oc o1 s = Some (t, b)"
  obtains (Same) "t = s" "\<not> b"
  | (Sent) nh ch h fh where "best_block o1 = Inr (ch, h)" "validation_index o1 = Inr nh"
      "filter_tip o1 = Inr fh" "send_next_state oc (wire_ready o1) nh ch fh s = Some (t, b)"
  using assms by (auto simp: status_poll_def Let_def split: sum.splits)

lemma status_poll_frozen:
  assumes "status_poll oc o1 s = Some (t, b)"
  shows "frozen s \<Longrightarrow> t = s" and "\<not> frozen s \<Longrightarrow> \<not> frozen t" and "b = (s \<noteq> t)"
  using assms
  by (cases rule: status_poll_cases; fastforce dest: send_next_state_cases compute_next_state_result)+

text \<open>
  A poll wakes the receivers exactly when it changes the state, never moves a node out of
  a state that is decided elsewhere, never moves it into one, and a second poll that reads the
  same heights is silent.
\<close>

theorem status_poll_notifies:
  assumes "status_poll oc o1 s = Some (t, b)"
  shows "b = (s \<noteq> t) \<and> frozen t = frozen s \<and> (frozen s \<longrightarrow> t = s) \<and>
    status_poll oc o1 t = Some (t, False)"
proof -
  have "status_poll oc o1 t = Some (t, False)"
    using assms
  proof (cases rule: status_poll_cases)
    case Same
    with assms show ?thesis by simp
  next
    case (Sent nh ch h fh)
    show ?thesis
    proof (cases "frozen s")
      case True
      with assms status_poll_frozen [OF assms] show ?thesis by simp
    next
      case False
      from send_next_state_cases(3) [OF Sent(4) False]
      have next1: "compute_next_state oc (wire_ready o1) s nh ch fh = Some t" .
      from compute_next_state_result [OF next1 False] have nf: "\<not> frozen t" .
      with next1 False have "compute_next_state oc (wire_ready o1) t nh ch fh = Some t"
        by (metis compute_next_state_not_frozen)
      with Sent nf show ?thesis
        by (simp add: status_poll_def send_next_state_def)
    qed
  qed
  with status_poll_frozen [OF assms] show ?thesis by blast
qed

text \<open>A poll asks for a wake-up exactly when it changes the state.\<close>

lemma status_poll_modified: "status_poll oc o1 st = Some (st1, m) \<Longrightarrow> m \<longleftrightarrow> st1 \<noteq> st"
  by (auto simp: status_poll_def send_next_state_def Let_def split: sum.splits option.splits if_splits)

definition synced_tips :: "(nat, nat, nat) tips" where
  "synced_tips = \<lparr>peer_info = Inr [0], best_block = Inr (100, 7), validation_index = Inr 100,
     filter_tip = Inr 100\<rparr>"

theorem status_poll_notifies_witness:
  "status_poll True synced_tips Operational = Some (Operational, False)"
proof -
  have "status_poll True synced_tips Active = Some (Operational, True)"
    by (simp add: status_poll_def synced_tips_def wire_ready_def send_next_state_def
        compute_next_state_Active)
  from status_poll_notifies [OF this] show ?thesis by simp
qed

end
