(* ===== verification/NodeErrors.thy ===== *)
theory NodeErrors
  imports Actions Fsm
begin

text \<open>
  \<open>src/src/node/error.rs\<close>: the errors of the builder and of the node, their \<open>Display\<close> and
  their \<open>source\<close>. An error of a library or of the operating system is a value of the type
  variable \<open>'x\<close>, and its text is the parameter \<open>show\<close>.
\<close>

datatype 'x BuilderError =
    CreateDirectory 'x
  | ChainState 'x
  | ChainStoreInit 'x
  | CompactBlockFilter 'x
  | BuildInner 'x
  | LoggerSetup 'x
  | LoggerAlreadySetup

fun display_BuilderError :: "('x \<Rightarrow> string) \<Rightarrow> 'x BuilderError \<Rightarrow> string" where
  "display_BuilderError show (CreateDirectory e) = ''Failed to create the data directory: '' @ show e"
| "display_BuilderError show (ChainState e) = ''Failed to create a chainstate: '' @ show e"
| "display_BuilderError show (ChainStoreInit e) =
     ''Failed to load or create a new chain store: '' @ show e"
| "display_BuilderError show (BuilderError.CompactBlockFilter e) = ''Compact Block Filter error: '' @ show e"
| "display_BuilderError show (BuildInner e) = ''Failed to build the inner node: '' @ show e"
| "display_BuilderError show (LoggerSetup e) =
     ''Failed to setup the tracing subscriber logger: '' @ show e"
| "display_BuilderError show LoggerAlreadySetup =
     ''A tracing subscriber logger is already initialized''"

fun source_BuilderError :: "'x BuilderError \<Rightarrow> 'x option" where
  "source_BuilderError (CreateDirectory e) = Some e"
| "source_BuilderError (LoggerSetup e) = Some e"
| "source_BuilderError _ = None"

datatype 'x NodeError =
    NotRunning
  | AlreadyRunning
  | DirtyShutdown 'x
  | UnresponsiveNode 'x
  | Blockchain 'x
  | Mempool 'x
  | MissingBlock BlockHash
  | IllegalAction State Action
  | NoSpksProvided
  | CompactBlockFilter 'x
  | StopHeightExceedsFilterTip u32 u32

fun display_NodeError ::
  "('x \<Rightarrow> string) \<Rightarrow> (256 word \<Rightarrow> string) \<Rightarrow> 'x NodeError \<Rightarrow> string" where
  "display_NodeError show hash_text NotRunning = ''The node is not running''"
| "display_NodeError show hash_text AlreadyRunning = ''The node is already running''"
| "display_NodeError show hash_text (DirtyShutdown e) =
     ''The node failed to perform a clean shutdown: '' @ show e"
| "display_NodeError show hash_text (UnresponsiveNode e) = ''The node is unresponsive: '' @ show e"
| "display_NodeError show hash_text (Blockchain e) = ''Blockchain error: '' @ show e"
| "display_NodeError show hash_text (Mempool e) = ''Mempool error: '' @ show e"
| "display_NodeError show hash_text (MissingBlock h) =
     ''The block with hash='' @ hash_text h @ '' does not exist in the chain''"
| "display_NodeError show hash_text (IllegalAction st a) =
     ''The requested action='' @ display_Action hash_text a @
     '' cannot be performed at the current state='' @ display_State st"
| "display_NodeError show hash_text NoSpksProvided =
     ''No spks were provided when rescanning the blockchain''"
| "display_NodeError show hash_text (NodeError.CompactBlockFilter e) =
     ''Compact Block Filter error: '' @ show e"
| "display_NodeError show hash_text (StopHeightExceedsFilterTip r a) =
     ''The provided stop_height='' @ display_word r @ '' exceeds filter store height='' @ display_word a"

fun source_NodeError :: "'x NodeError \<Rightarrow> 'x option" where
  "source_NodeError NotRunning = None"
| "source_NodeError AlreadyRunning = None"
| "source_NodeError (DirtyShutdown _) = None"
| "source_NodeError (UnresponsiveNode e) = Some e"
| "source_NodeError (Blockchain e) = Some e"
| "source_NodeError (Mempool e) = Some e"
| "source_NodeError (MissingBlock _) = None"
| "source_NodeError (IllegalAction _ _) = None"
| "source_NodeError NoSpksProvided = None"
| "source_NodeError (NodeError.CompactBlockFilter e) = Some e"
| "source_NodeError (StopHeightExceedsFilterTip _ _) = None"

lemma source_NodeError_displayed:
  "source_NodeError e = Some x \<Longrightarrow> suffix (show x) (display_NodeError show hash_text e)"
  by (cases e) (auto simp: suffix_def)

end
