(* ===== verification/ClientErrors.thy ===== *)
theory ClientErrors
  imports NodeErrors
begin

text \<open>
  \<open>src/src/client/error.rs\<close>: the errors of the client, their \<open>Display\<close>, their \<open>source\<close> and the
  conversion from the errors of the node. \<open>'n\<close> is the library's type of networks, whose text is
  the parameter \<open>net_text\<close>; \<open>NodeErr\<close> is the variant \<open>ClientError::Node\<close>.
\<close>

datatype ('x, 'n) ClientError =
    NetworkMismatch 'n 'n
  | ScanAborted
  | InvalidRange u32 u32
  | NoExternalKeychain
  | UnresponsiveNode
  | PoisonedLock
  | NodeErr "'x NodeError"

fun display_ClientError ::
  "('n \<Rightarrow> string) \<Rightarrow> ('x \<Rightarrow> string) \<Rightarrow> (256 word \<Rightarrow> string) \<Rightarrow> ('x, 'n) ClientError \<Rightarrow> string" where
  "display_ClientError net_text show hash_text (NetworkMismatch a b) =
     ''Network mismatch between node='' @ net_text a @ '' and wallet='' @ net_text b"
| "display_ClientError net_text show hash_text ScanAborted = ''The scan was aborted''"
| "display_ClientError net_text show hash_text (InvalidRange a b) =
     ''Invalid scan range: start_height='' @ display_word a @ '' > stop_height='' @ display_word b"
| "display_ClientError net_text show hash_text NoExternalKeychain =
     ''The wallet has no external keychain''"
| "display_ClientError net_text show hash_text ClientError.UnresponsiveNode =
     ''The node is unresponsive''"
| "display_ClientError net_text show hash_text PoisonedLock =
     ''The event channel's lock is poisoned''"
| "display_ClientError net_text show hash_text (NodeErr e) =
     ''Node Error: '' @ display_NodeError show hash_text e"

fun source_ClientError :: "('x, 'n) ClientError \<Rightarrow> 'x NodeError option" where
  "source_ClientError (NodeErr e) = Some e"
| "source_ClientError _ = None"

definition from_NodeError :: "'x NodeError \<Rightarrow> ('x, 'n) ClientError" where
  "from_NodeError e = NodeErr e"

text \<open>
  The chain of causes below a client error, as \<open>Error::source\<close> gives it: the node's error, and
  below that the library's.
\<close>

definition root_cause :: "('x, 'n) ClientError \<Rightarrow> 'x option" where
  "root_cause e = Option.bind (source_ClientError e) source_NodeError"

lemma from_NodeError_source [simp]:
  "source_ClientError (from_NodeError e) = Some e" "root_cause (from_NodeError e) = source_NodeError e"
  by (simp_all add: from_NodeError_def root_cause_def)

text \<open>
  Nothing is lost on the way up: the text of a client error ends with the text of its root
  cause, whenever the chain of sources has one.
\<close>

theorem root_cause_displayed:
  assumes "root_cause e = Some x"
  shows "suffix (show x) (display_ClientError net_text show hash_text e)"
proof -
  from assms obtain ne where e: "e = NodeErr ne" and "source_NodeError ne = Some x"
    by (cases e) (auto simp: root_cause_def)
  from source_NodeError_displayed [OF this(2), of "show" hash_text] e show ?thesis
    by (auto simp: suffix_def)
qed

theorem root_cause_displayed_witness:
  "suffix ''disk full'' (display_ClientError (\<lambda>_. []) (\<lambda>_. ''disk full'') (\<lambda>_. []) (NodeErr (Blockchain ())))"
  using root_cause_displayed [of "NodeErr (Blockchain ())" "()" "\<lambda>_. ''disk full''"]
  by (simp add: root_cause_def)

end
