(* ===== verification/ScanHandle.thy ===== *)
theory ScanHandle
  imports ClientErrors
begin

text \<open>
  The handle of a spawned scan, \<open>ScanHandle\<close> of \<open>src/src/client/mod.rs\<close>: joining, cancelling,
  stopping and dropping it.

  The task runs on its own. It ends with a result, or by an abort or a panic, which the join
  handle reports as an error of the runtime. A method that awaits the task and finds it running
  is pending, the result \<open>None\<close>; what it had changed by then stays changed.
\<close>

datatype ('x, 'n) task = Running | Finished "('x, 'n) ClientError + unit" | Failed

record ('x, 'n) ScanHandle =
  token :: bool
  join_handle :: bool
  task :: "('x, 'n) task"

definition new_handle :: "bool \<Rightarrow> ('x, 'n) task \<Rightarrow> ('x, 'n) ScanHandle" where
  "new_handle tok t = \<lparr>token = tok, join_handle = True, task = t\<rparr>"

definition await_task :: "('x, 'n) task \<Rightarrow> (unit + (('x, 'n) ClientError + unit)) option" where
  "await_task t = (case t of Running \<Rightarrow> None | Finished r \<Rightarrow> Some (Inr r) | Failed \<Rightarrow> Some (Inl ()))"

definition join :: "('x, 'n) ScanHandle \<Rightarrow>
   (('x, 'n) ClientError + unit) option \<times> ('x, 'n) ScanHandle" where
  "join h =
     (if \<not> join_handle h then (Some (Inr ()), h)
      else
        (case await_task (task h) of
           None \<Rightarrow> (None, h)
         | Some awaited \<Rightarrow>
             (let result = (case awaited of Inl _ \<Rightarrow> Inl ScanAborted | Inr r \<Rightarrow> r)
              in (Some result, h\<lparr>join_handle := False\<rparr>))))"

definition cancel :: "('x, 'n) ScanHandle \<Rightarrow> ('x, 'n) ScanHandle" where
  "cancel h = h\<lparr>token := True\<rparr>"

definition stop :: "('x, 'n) ScanHandle \<Rightarrow> unit option \<times> ('x, 'n) ScanHandle" where
  "stop h =
     (let h1 = h\<lparr>token := True\<rparr> in
      if join_handle h1
      then (case await_task (task h1) of None \<Rightarrow> None | Some _ \<Rightarrow> Some (), h1\<lparr>join_handle := False\<rparr>)
      else (Some (), h1))"

definition abort :: "('x, 'n) task \<Rightarrow> ('x, 'n) task" where
  "abort t = (case t of Running \<Rightarrow> Failed | _ \<Rightarrow> t)"

definition drop_handle :: "('x, 'n) ScanHandle \<Rightarrow> ('x, 'n) ScanHandle" where
  "drop_handle h =
     (let h1 = h\<lparr>token := True\<rparr> in
      if join_handle h1 then h1\<lparr>join_handle := False, task := abort (task h1)\<rparr> else h1)"

section \<open>Sequences of calls\<close>

text \<open>The owner calls methods in any order, and the task ends at some time, once.\<close>

datatype ('x, 'n) handle_event = Join | CancelScan | Stop | TaskEnds "('x, 'n) task"

fun handle_step :: "('x, 'n) ScanHandle \<Rightarrow> ('x, 'n) handle_event \<Rightarrow>
   (('x, 'n) ClientError + unit) option \<times> ('x, 'n) ScanHandle" where
  "handle_step h Join = join h"
| "handle_step h CancelScan = (None, cancel h)"
| "handle_step h Stop = (None, snd (stop h))"
| "handle_step h (TaskEnds t) = (None, if task h = Running then h\<lparr>task := t\<rparr> else h)"

fun handle_run :: "('x, 'n) ScanHandle \<Rightarrow> ('x, 'n) handle_event list \<Rightarrow>
   (('x, 'n) ClientError + unit) option list \<times> ('x, 'n) ScanHandle" where
  "handle_run h [] = ([], h)"
| "handle_run h (e # es) =
     (let (r, h1) = handle_step h e; (rs, h2) = handle_run h1 es in (r # rs, h2))"

lemma handle_step_simps:
  "handle_step h e = (r, h') \<Longrightarrow> \<not> join_handle h \<Longrightarrow> \<not> join_handle h' \<and> r \<in> {None, Some (Inr ())}"
  "handle_step h e = (r, h') \<Longrightarrow> token h \<Longrightarrow> token h'"
  "handle_step h e = (r, h') \<Longrightarrow> r \<noteq> None \<Longrightarrow> \<not> join_handle h'"
  by (cases e; auto simp: join_def cancel_def stop_def Let_def split: option.splits if_splits)+

lemma handle_run_consumed:
  "handle_run h es = (rs, h') \<Longrightarrow> \<not> join_handle h \<Longrightarrow> set rs \<subseteq> {None, Some (Inr ())}"
proof (induction es arbitrary: h rs)
  case (Cons e es)
  obtain r h1 where s: "handle_step h e = (r, h1)" by force
  with Cons.prems obtain rs' where "handle_run h1 es = (rs', h')" "rs = r # rs'"
    by (auto split: prod.splits)
  with Cons.IH [of h1 rs'] handle_step_simps(1) [OF s Cons.prems(2)] show ?case by auto
qed simp

text \<open>
  In any sequence of joins, cancellations and stops, while the task ends at any moment, an
  error of the scan is reported by at most one join, and every other join that returns says
  \<open>Ok\<close>: a finished join handle is never awaited again.
\<close>

theorem scan_error_reported_once:
  "length (filter (\<lambda>r. r \<notin> {None, Some (Inr ())}) (fst (handle_run h es))) \<le> 1"
proof (induction es arbitrary: h)
  case Nil
  show ?case by simp
next
  case (Cons e es)
  obtain r h1 where s: "handle_step h e = (r, h1)" by force
  obtain rs h2 where rs: "handle_run h1 es = (rs, h2)" by force
  show ?case
  proof (cases "r \<in> {None, Some (Inr ())}")
    case True
    with Cons.IH [of h1] s rs show ?thesis by auto
  next
    case False
    with handle_step_simps(3) [OF s] have "\<not> join_handle h1" by auto
    from handle_run_consumed [OF rs this]
    have "filter (\<lambda>r. r \<notin> {None, Some (Inr ())}) rs = []" by (auto simp: filter_empty_conv)
    with s rs show ?thesis by simp
  qed
qed

text \<open>
  Stopping or dropping a handle always cancels the scan's token and gives up the task: a
  join afterwards returns \<open>Ok\<close> at once, and a dropped handle leaves no running task behind.
\<close>

theorem stop_and_drop_cancel:
  "token (snd (stop h)) \<and> fst (join (snd (stop h))) = Some (Inr ()) \<and>
   token (drop_handle h) \<and> fst (join (drop_handle h)) = Some (Inr ()) \<and>
   (join_handle h \<longrightarrow> task (drop_handle h) \<noteq> Running)"
  by (auto simp: stop_def join_def drop_handle_def abort_def Let_def split: task.splits)

theorem stop_and_drop_cancel_witness:
  "task (drop_handle (new_handle False Running :: (nat, nat) ScanHandle)) \<noteq> Running"
  using stop_and_drop_cancel [of "new_handle False Running :: (nat, nat) ScanHandle"]
  by (simp add: new_handle_def)

text \<open>Joining a scan that was aborted, or whose task panicked, is an error of the client.\<close>

lemma join_failed: "join_handle h \<Longrightarrow> task h = Failed \<Longrightarrow> fst (join h) = Some (Inl ScanAborted)"
  by (simp add: join_def await_task_def)

end
