(* ===== verification/Node.thy ===== *)
theory Node
  imports NodeErrors
begin

text \<open>
  The node of \<open>src/src/node/mod.rs\<close>: its configuration (the struct of
  \<open>src/src/node/builder.rs\<close>), its fields, and the methods its callers use. The backend
  (\<open>'w\<close>) is the state of the libraries behind it: the chain state, the filter store and the
  handle to the inner node. What a method asks of them is an argument of its definition.

  A method that awaits the inner node is suspended in between, and \<open>env\<close> is what the other
  tasks do to the node in that time.
\<close>

record ('n, 'r) NodeConfig =
  network :: 'n
  datadir :: string
  enable_powfps :: bool
  assume_valid :: "BlockHash option"
  assume_utreexo :: bool
  perform_backfill :: bool
  user_agent :: string
  fixed_peers :: "SocketAddr list option"
  max_banscore :: u32
  socks5_proxy :: "SocketAddr option"
  disable_dns_seeds :: bool
  allow_p2pv1_fallback :: bool
  mempool_size :: usize
  address_man_size :: "usize option"
  reachable_nets :: "'r list"

text \<open>
  A \<open>Mutex<Option<_>>\<close> is represented by whether it holds a value, a watch channel by the value
  last sent, a token by whether it is cancelled, an \<open>Instant\<close> by a number of ticks.
\<close>

record ('n, 'r, 'w) Node =
  inner :: bool
  config :: "('n, 'r) NodeConfig"
  state :: State
  started_at :: "nat option"
  actions :: "Action set"
  cancellation_token :: bool
  kill_signal :: bool
  shutdown_task :: bool
  log_guard :: bool
  backend :: 'w

section \<open>Actions in flight\<close>

definition track_action :: "Action \<Rightarrow> ('n, 'r, 'w) Node \<Rightarrow> ('n, 'r, 'w) Node" where
  "track_action a n = n\<lparr>actions := track a (actions n)\<rparr>"

definition untrack_action :: "Action \<Rightarrow> ('n, 'r, 'w) Node \<Rightarrow> ('n, 'r, 'w) Node" where
  "untrack_action a n = n\<lparr>actions := untrack a (actions n)\<rparr>"

lemma track_action_simps [simp]:
  "actions (track_action a n) = insert a (actions n)" "state (track_action a n) = state n"
  "backend (track_action a n) = backend n" "config (track_action a n) = config n"
  by (simp_all add: track_action_def track_def)

lemma untrack_action_simps [simp]:
  "actions (untrack_action a n) = actions n - {a}" "state (untrack_action a n) = state n"
  "backend (untrack_action a n) = backend n" "config (untrack_action a n) = config n"
  by (simp_all add: untrack_action_def untrack_def)

section \<open>Local methods\<close>

definition flush :: "('w \<Rightarrow> 'x + unit) \<Rightarrow> ('n, 'r, 'w) Node \<Rightarrow> 'x NodeError + unit" where
  "flush chain_flush n = map_err Blockchain (chain_flush (backend n))"

definition uptime :: "nat \<Rightarrow> ('n, 'r, 'w) Node \<Rightarrow> 'x NodeError + nat" where
  "uptime now n = ok_or NotRunning (map_option (\<lambda>t. now - t) (started_at n))"

definition get_state :: "('n, 'r, 'w) Node \<Rightarrow> State" where
  "get_state n = state n"

definition get_actions :: "('n, 'r, 'w) Node \<Rightarrow> Action set" where
  "get_actions n = actions n"

definition get_config :: "('n, 'r, 'w) Node \<Rightarrow> ('n, 'r) NodeConfig" where
  "get_config n = config n"

definition in_ibd :: "('w \<Rightarrow> bool) \<Rightarrow> ('n, 'r, 'w) Node \<Rightarrow> bool" where
  "in_ibd chain_is_in_ibd n = chain_is_in_ibd (backend n)"

definition get_chain_height :: "('w \<Rightarrow> 'x + u32) \<Rightarrow> ('n, 'r, 'w) Node \<Rightarrow> 'x NodeError + u32" where
  "get_chain_height chain_get_height n = map_err Blockchain (chain_get_height (backend n))"

definition get_node_height :: "('w \<Rightarrow> 'x + u32) \<Rightarrow> ('n, 'r, 'w) Node \<Rightarrow> 'x NodeError + u32" where
  "get_node_height chain_get_validation_index n =
     map_err Blockchain (chain_get_validation_index (backend n))"

definition get_filter_height :: "('w \<Rightarrow> 'x + u32) \<Rightarrow> ('n, 'r, 'w) Node \<Rightarrow> 'x NodeError + u32" where
  "get_filter_height filters_get_height n =
     map_err NodeError.CompactBlockFilter (filters_get_height (backend n))"

definition get_accumulator :: "('w \<Rightarrow> 'a) \<Rightarrow> ('n, 'r, 'w) Node \<Rightarrow> 'a" where
  "get_accumulator chain_get_acc n = chain_get_acc (backend n)"

definition get_block_height ::
  "(BlockHash \<Rightarrow> 'w \<Rightarrow> 'x + u32 option) \<Rightarrow> BlockHash \<Rightarrow> ('n, 'r, 'w) Node \<Rightarrow> 'x NodeError + u32" where
  "get_block_height chain_get_block_height hash n =
     and_then (map_err Blockchain (chain_get_block_height hash (backend n)))
       (\<lambda>height. ok_or (MissingBlock hash) height)"

definition get_block_hash ::
  "(u32 \<Rightarrow> 'w \<Rightarrow> 'x + BlockHash) \<Rightarrow> u32 \<Rightarrow> ('n, 'r, 'w) Node \<Rightarrow> 'x NodeError + BlockHash" where
  "get_block_hash chain_get_block_hash height n =
     map_err Blockchain (chain_get_block_hash height (backend n))"

definition get_block_header ::
  "(BlockHash \<Rightarrow> 'w \<Rightarrow> 'x + 'hd) \<Rightarrow> BlockHash \<Rightarrow> ('n, 'r, 'w) Node \<Rightarrow> 'x NodeError + 'hd" where
  "get_block_header chain_get_block_header hash n =
     map_err Blockchain (chain_get_block_header hash (backend n))"

definition get_peer_info ::
  "('w \<Rightarrow> 'x + 'p list) \<Rightarrow> ('n, 'r, 'w) Node \<Rightarrow> 'x NodeError + 'p list" where
  "get_peer_info handle_get_peer_info n =
     map_err UnresponsiveNode (handle_get_peer_info (backend n))"

definition match_filters ::
  "('w \<Rightarrow> 'x + u32) \<Rightarrow> (bytes list \<Rightarrow> u32 option \<Rightarrow> u32 option \<Rightarrow> 'w \<Rightarrow> 'x + BlockHash list) \<Rightarrow>
   bytes list \<Rightarrow> u32 \<Rightarrow> u32 \<Rightarrow> ('n, 'r, 'w) Node \<Rightarrow>
   ('x NodeError + BlockHash list) \<times> ('n, 'r, 'w) Node" where
  "match_filters filters_get_height match_any spks start_height stop_height n =
     (let last_state = state n in
      if last_state \<noteq> Operational then (Inl (IllegalAction last_state MatchingFilters), n)
      else
        (case map_err NodeError.CompactBlockFilter (filters_get_height (backend n)) of
           Inl e \<Rightarrow> (Inl e, n)
         | Inr ftip \<Rightarrow>
             if stop_height > ftip then (Inl (StopHeightExceedsFilterTip stop_height ftip), n)
             else
               (let action = MatchingFilters;
                    n1 = track_action action n;
                    result = map_err NodeError.CompactBlockFilter
                      (match_any spks (Some start_height) (Some stop_height) (backend n1))
                in (result, untrack_action action n1))))"

section \<open>Network methods\<close>

definition fetch_block ::
  "(BlockHash \<Rightarrow> 'w \<Rightarrow> 'x + 'b option) \<Rightarrow> BlockHash \<Rightarrow>
   (('n, 'r, 'w) Node \<Rightarrow> ('n, 'r, 'w) Node) \<Rightarrow> ('n, 'r, 'w) Node \<Rightarrow>
   ('x NodeError + 'b) \<times> ('n, 'r, 'w) Node" where
  "fetch_block handle_get_block hash env n =
     (let action = FetchingBlock hash;
          n1 = env (track_action action n);
          result = and_then (map_err UnresponsiveNode (handle_get_block hash (backend n1)))
            (\<lambda>opt. ok_or (MissingBlock hash) opt)
      in (result, untrack_action action n1))"

text \<open>
  \<open>fetch_blocks\<close> in the three pieces a caller that races it against a cancellation can see: up
  to the first await, the joint answer, and the return. One future per hash asks the inner node,
  the answers may differ between requests for the same hash, and \<open>try_join_all\<close> is the library's
  joining of their results.
\<close>

definition fetch_blocks_begin :: "BlockHash list \<Rightarrow> ('n, 'r, 'w) Node \<Rightarrow> ('n, 'r, 'w) Node" where
  "fetch_blocks_begin hashes n = track_action (FetchingBlocks (of_nat (length hashes))) n"

definition fetch_one :: "(nat \<Rightarrow> BlockHash \<Rightarrow> 'w \<Rightarrow> 'x + 'b option) \<Rightarrow> 'w \<Rightarrow> nat \<Rightarrow> BlockHash \<Rightarrow>
   'x NodeError + 'b" where
  "fetch_one handle_get_block w i hash =
     and_then (map_err UnresponsiveNode (handle_get_block i hash w))
       (\<lambda>opt. ok_or (MissingBlock hash) opt)"

definition fetch_blocks_end ::
  "(('x NodeError + 'b) list \<Rightarrow> 'x NodeError + 'b list) \<Rightarrow>
   (nat \<Rightarrow> BlockHash \<Rightarrow> 'w \<Rightarrow> 'x + 'b option) \<Rightarrow> BlockHash list \<Rightarrow> ('n, 'r, 'w) Node \<Rightarrow>
   ('x NodeError + 'b list) \<times> ('n, 'r, 'w) Node" where
  "fetch_blocks_end try_join_all handle_get_block hashes n =
     (let result = try_join_all
            (map (\<lambda>(i, hash). fetch_one handle_get_block (backend n) i hash)
              (List.enumerate 0 hashes))
      in (result, untrack_action (FetchingBlocks (of_nat (length hashes))) n))"

definition fetch_blocks ::
  "(('x NodeError + 'b) list \<Rightarrow> 'x NodeError + 'b list) \<Rightarrow>
   (nat \<Rightarrow> BlockHash \<Rightarrow> 'w \<Rightarrow> 'x + 'b option) \<Rightarrow> BlockHash list \<Rightarrow>
   (('n, 'r, 'w) Node \<Rightarrow> ('n, 'r, 'w) Node) \<Rightarrow> ('n, 'r, 'w) Node \<Rightarrow>
   ('x NodeError + 'b list) \<times> ('n, 'r, 'w) Node" where
  "fetch_blocks try_join_all handle_get_block hashes env n =
     fetch_blocks_end try_join_all handle_get_block hashes (env (fetch_blocks_begin hashes n))"

definition broadcast_tx ::
  "('t \<Rightarrow> Txid) \<Rightarrow> ('t \<Rightarrow> 'w \<Rightarrow> 'x + ('x + Txid)) \<Rightarrow> 't \<Rightarrow>
   (('n, 'r, 'w) Node \<Rightarrow> ('n, 'r, 'w) Node) \<Rightarrow> ('n, 'r, 'w) Node \<Rightarrow>
   ('x NodeError + Txid) \<times> ('n, 'r, 'w) Node" where
  "broadcast_tx compute_txid handle_broadcast_transaction tx env n =
     (let txid = compute_txid tx;
          action = BroadcastingTransaction txid;
          n1 = env (track_action action n);
          result = and_then (map_err UnresponsiveNode (handle_broadcast_transaction tx (backend n1)))
            (\<lambda>answer. map_err Mempool answer)
      in (result, untrack_action action n1))"

definition add_peer ::
  "(BitcoinSocketAddr \<Rightarrow> bool \<Rightarrow> 'w \<Rightarrow> 'x + bool) \<Rightarrow> SocketAddr \<Rightarrow>
   (('n, 'r, 'w) Node \<Rightarrow> ('n, 'r, 'w) Node) \<Rightarrow> ('n, 'r, 'w) Node \<Rightarrow>
   ('x NodeError + bool) \<times> ('n, 'r, 'w) Node" where
  "add_peer handle_add_peer socket env n =
     (let action = ConnectingToPeer socket;
          n1 = env (track_action action n);
          result = map_err UnresponsiveNode
            (handle_add_peer (to_bitcoin_socket_addr socket) (allow_p2pv1_fallback (config n))
              (backend n1))
      in (result, untrack_action action n1))"

definition disconnect_peer ::
  "(BitcoinSocketAddr \<Rightarrow> 'w \<Rightarrow> 'x + bool) \<Rightarrow> SocketAddr \<Rightarrow>
   (('n, 'r, 'w) Node \<Rightarrow> ('n, 'r, 'w) Node) \<Rightarrow> ('n, 'r, 'w) Node \<Rightarrow>
   ('x NodeError + bool) \<times> ('n, 'r, 'w) Node" where
  "disconnect_peer handle_disconnect_peer socket env n =
     (let action = DisconnectingFromPeer socket;
          n1 = env (track_action action n);
          result = map_err UnresponsiveNode
            (handle_disconnect_peer (to_bitcoin_socket_addr socket) (backend n1))
      in (result, untrack_action action n1))"

definition remove_peer ::
  "(BitcoinSocketAddr \<Rightarrow> 'w \<Rightarrow> 'x + bool) \<Rightarrow> SocketAddr \<Rightarrow>
   (('n, 'r, 'w) Node \<Rightarrow> ('n, 'r, 'w) Node) \<Rightarrow> ('n, 'r, 'w) Node \<Rightarrow>
   ('x NodeError + bool) \<times> ('n, 'r, 'w) Node" where
  "remove_peer handle_remove_peer socket env n =
     (let action = RemovingPeer socket;
          n1 = env (track_action action n);
          result = map_err UnresponsiveNode
            (handle_remove_peer (to_bitcoin_socket_addr socket) (backend n1))
      in (result, untrack_action action n1))"

definition ping ::
  "('w \<Rightarrow> 'x + bool) \<Rightarrow> (('n, 'r, 'w) Node \<Rightarrow> ('n, 'r, 'w) Node) \<Rightarrow> ('n, 'r, 'w) Node \<Rightarrow>
   ('x NodeError + bool) \<times> ('n, 'r, 'w) Node" where
  "ping handle_ping env n =
     (let action = Pinging;
          n1 = env (track_action action n);
          result = map_err UnresponsiveNode (handle_ping (backend n1))
      in (result, untrack_action action n1))"

section \<open>The contract of the network methods\<close>

text \<open>
  What every network method promises around its await: its action is tracked while it is
  suspended and untracked when it returns, and nothing else of the node is touched.
\<close>

locale tracked_call =
  fixes act :: Action
    and call :: "(('n, 'r, 'w) Node \<Rightarrow> ('n, 'r, 'w) Node) \<Rightarrow> ('n, 'r, 'w) Node \<Rightarrow>
      'res \<times> ('n, 'r, 'w) Node"
  assumes brackets: "snd (call env n) = untrack_action act (env (track_action act n))"
begin

lemma not_tracked_after: "act \<notin> actions (snd (call env n))"
  by (simp add: brackets)

lemma restores:
  assumes "\<And>m. actions (env m) = actions m" and "act \<notin> actions n"
  shows "actions (snd (call env n)) = actions n"
  using assms by (simp add: brackets)

lemma keeps_state: "(\<And>m. state (env m) = state m) \<Longrightarrow> state (snd (call env n)) = state n"
  by (simp add: brackets)

text \<open>A call that starts and ends while another one with the same action is suspended hides it.\<close>

lemma inner_call_hides:
  "act \<notin> actions (snd (call id (track_action act n)))"
  by (rule not_tracked_after)

end

interpretation fetch_block: tracked_call "FetchingBlock hash" "fetch_block get hash" for get hash
  by unfold_locales (simp add: fetch_block_def Let_def)

interpretation fetch_blocks: tracked_call "FetchingBlocks (of_nat (length hashes))"
  "fetch_blocks join get hashes" for join get hashes
  by unfold_locales
    (simp add: fetch_blocks_def fetch_blocks_end_def fetch_blocks_begin_def Let_def)

interpretation broadcast_tx: tracked_call "BroadcastingTransaction (compute_txid tx)"
  "broadcast_tx compute_txid send tx" for compute_txid send tx
  by unfold_locales (simp add: broadcast_tx_def Let_def)

interpretation add_peer: tracked_call "ConnectingToPeer socket" "add_peer add socket" for add socket
  by unfold_locales (simp add: add_peer_def Let_def)

interpretation disconnect_peer: tracked_call "DisconnectingFromPeer socket"
  "disconnect_peer disc socket" for disc socket
  by unfold_locales (simp add: disconnect_peer_def Let_def)

interpretation remove_peer: tracked_call "RemovingPeer socket" "remove_peer rm socket" for rm socket
  by unfold_locales (simp add: remove_peer_def Let_def)

interpretation ping: tracked_call Pinging "ping ask" for ask
  by unfold_locales (simp add: ping_def Let_def)

lemmas network_calls_restore =
  fetch_block.restores fetch_blocks.restores broadcast_tx.restores add_peer.restores
  disconnect_peer.restores remove_peer.restores ping.restores


definition sample_config :: "(nat, nat) NodeConfig" where
  "sample_config = \<lparr>network = 0, datadir = ''data'', enable_powfps = True, assume_valid = None,
     assume_utreexo = True, perform_backfill = False, user_agent = ''ua'', fixed_peers = None,
     max_banscore = 100, socks5_proxy = None, disable_dns_seeds = False,
     allow_p2pv1_fallback = True, mempool_size = 100, address_man_size = None,
     reachable_nets = []\<rparr>"

definition sample_node :: "'w \<Rightarrow> State \<Rightarrow> (nat, nat, 'w) Node" where
  "sample_node w st = \<lparr>inner = False, config = sample_config, state = st, started_at = Some 0,
     actions = {}, cancellation_token = False, kill_signal = False, shutdown_task = True,
     log_guard = False, backend = w\<rparr>"

lemma sample_node_simps [simp]:
  "inner (sample_node w st) = False" "state (sample_node w st) = st"
  "actions (sample_node w st) = {}" "cancellation_token (sample_node w st) = False"
  "backend (sample_node w st) = w" "network (config (sample_node w st)) = 0"
  by (simp_all add: sample_node_def sample_config_def)


section \<open>Fetching and matching\<close>

text \<open>
  What the code relies on of \<open>try_join_all\<close>: the results in order if all succeed, otherwise one
  of the errors.
\<close>

definition try_join_law :: "(('e + 'b) list \<Rightarrow> 'e + 'b list) \<Rightarrow> bool" where
  "try_join_law join \<longleftrightarrow> (\<forall>bs. join (map Inr bs) = Inr bs) \<and>
     (\<forall>rs. (\<exists>e. Inl e \<in> set rs) \<longrightarrow> (\<exists>e. Inl e \<in> set rs \<and> join rs = Inl e))"

lemma all_Inr_or_Inl: "(\<exists>bs. rs = map Inr bs) \<or> (\<exists>e. Inl e \<in> set rs)"
proof (induction rs)
  case (Cons r rs)
  then show ?case
  proof (cases r)
    case (Inr b)
    with Cons show ?thesis by (metis list.set_intros(2) list.simps(9))
  qed auto
qed simp

lemma try_join_Ok_iff:
  assumes "try_join_law join"
  shows "join rs = Inr bs \<longleftrightarrow> rs = map Inr bs"
proof
  assume ok: "join rs = Inr bs"
  from all_Inr_or_Inl [of rs] show "rs = map Inr bs"
  proof
    assume "\<exists>cs. rs = map Inr cs"
    with ok assms show ?thesis by (auto simp: try_join_law_def)
  next
    assume "\<exists>e. Inl e \<in> set rs"
    with ok assms show ?thesis unfolding try_join_law_def by (metis sum.distinct(1))
  qed
qed (use assms in \<open>simp add: try_join_law_def\<close>)

lemma try_join_Err:
  assumes "try_join_law join" and "join rs = Inl e"
  shows "Inl e \<in> set rs"
  using all_Inr_or_Inl [of rs] assms unfolding try_join_law_def by (metis sum.distinct(1) sum.sel(1))

definition block_answers ::
  "(nat \<Rightarrow> BlockHash \<Rightarrow> 'w \<Rightarrow> 'x + 'b option) \<Rightarrow> BlockHash list \<Rightarrow> 'w \<Rightarrow> ('x + 'b option) list" where
  "block_answers get hs w = map (\<lambda>(i, h). get i h w) (List.enumerate 0 hs)"

lemma fetch_one_cases:
  "fetch_one get w i h = Inr b \<longleftrightarrow> get i h w = Inr (Some b)"
  "fetch_one get w i h = Inl e \<longleftrightarrow>
     (\<exists>x. get i h w = Inl x \<and> e = UnresponsiveNode x) \<or> get i h w = Inr None \<and> e = MissingBlock h"
  by (auto simp: fetch_one_def and_then_def map_err_def ok_or_def split: sum.splits option.splits)

lemma fetch_blocks_Ok_iff:
  assumes "try_join_law join"
  shows "fst (fetch_blocks_end join get hs m) = Inr bs \<longleftrightarrow>
    block_answers get hs (backend m) = map (\<lambda>b. Inr (Some b)) bs"
proof -
  have "fst (fetch_blocks_end join get hs m) = Inr bs \<longleftrightarrow>
      map (\<lambda>(i, h). fetch_one get (backend m) i h) (List.enumerate 0 hs) = map Inr bs"
    by (simp add: fetch_blocks_end_def Let_def try_join_Ok_iff [OF assms])
  also have "\<dots> \<longleftrightarrow> block_answers get hs (backend m) = map (\<lambda>b. Inr (Some b)) bs"
    by (simp add: block_answers_def list_eq_iff_nth_eq fetch_one_cases nth_enumerate_eq cong: conj_cong)
  finally show ?thesis .
qed

text \<open>
  C28. \<open>fetch_blocks\<close> returns blocks exactly when the inner node answered every request with a
  block, and then it returns those blocks in the order of the hashes.
\<close>

theorem fetch_blocks_in_order:
  assumes "try_join_law join"
  shows "fst (fetch_blocks join get hs env n) = Inr bs \<longleftrightarrow>
    length bs = length hs \<and>
    (\<forall>i < length hs. get i (hs ! i) (backend (env (fetch_blocks_begin hs n))) = Inr (Some (bs ! i)))"
  unfolding fetch_blocks_def fetch_blocks_Ok_iff [OF assms]
  by (auto simp: block_answers_def list_eq_iff_nth_eq nth_enumerate_eq)

text \<open>
  An error of \<open>fetch_blocks\<close> is one of a request that really failed: a hash the inner node
  does not know, or an inner node that did not answer.
\<close>

theorem fetch_blocks_error:
  assumes "try_join_law join" and "fst (fetch_blocks join get hs env n) = Inl e"
  shows "\<exists>i < length hs. let answer = get i (hs ! i) (backend (env (fetch_blocks_begin hs n))) in
    (\<exists>x. answer = Inl x \<and> e = UnresponsiveNode x) \<or>
    (answer = Inr None \<and> e = MissingBlock (hs ! i))"
proof -
  let ?w = "backend (env (fetch_blocks_begin hs n))"
  from assms(2) have "join (map (\<lambda>(i, h). fetch_one get ?w i h) (List.enumerate 0 hs)) = Inl e"
    by (simp add: fetch_blocks_def fetch_blocks_end_def Let_def)
  from try_join_Err [OF assms(1) this] obtain i where "i < length hs"
    and "fetch_one get ?w i (hs ! i) = Inl e"
    by (auto simp: in_set_conv_nth nth_enumerate_eq)
  then show ?thesis unfolding fetch_one_cases Let_def by blast
qed

text \<open>A joining that satisfies the law: the first error in the order of the list.\<close>

fun join_in_order :: "('e + 'b) list \<Rightarrow> 'e + 'b list" where
  "join_in_order [] = Inr []"
| "join_in_order (Inl e # rs) = Inl e"
| "join_in_order (Inr b # rs) = (case join_in_order rs of Inl e \<Rightarrow> Inl e | Inr bs \<Rightarrow> Inr (b # bs))"

lemma join_in_order_law: "try_join_law join_in_order"
proof -
  have "join_in_order (map Inr bs) = Inr bs" for bs :: "'b list"
    by (induction bs) simp_all
  moreover have "\<exists>e. Inl e \<in> set rs \<Longrightarrow> \<exists>e. Inl e \<in> set rs \<and> join_in_order rs = Inl e"
    for rs :: "('a + 'b) list"
    by (induction rs rule: join_in_order.induct) (auto split: sum.splits)
  ultimately show ?thesis unfolding try_join_law_def by blast
qed

theorem fetch_blocks_in_order_witness:
  "fst (fetch_blocks join_in_order (\<lambda>i h w. Inr (Some (i, h))) [5, 6] id (sample_node () Operational))
     = (Inr [(0, 5), (1, 6)] :: nat NodeError + (nat \<times> BlockHash) list)"
  unfolding fetch_blocks_in_order [OF join_in_order_law] by (auto simp: less_Suc_eq nth_Cons')

theorem fetch_blocks_error_witness:
  "\<exists>i < length [5, 6 :: BlockHash].
     MissingBlock 6 = (MissingBlock ([5, 6] ! i) :: nat NodeError)"
proof -
  let ?get = "\<lambda>i h w. if h = 6 then Inr None else Inr (Some (h :: BlockHash)) :: nat + BlockHash option"
  have "fst (fetch_blocks join_in_order ?get [5, 6] id (sample_node () Operational)) = Inl (MissingBlock 6)"
    by (simp add: fetch_blocks_def fetch_blocks_end_def fetch_one_def Let_def)
  from fetch_blocks_error [OF join_in_order_law this] show ?thesis
    by (auto simp: Let_def split: if_splits)
qed



end
