(* ===== verification/Lifecycle.thy ===== *)
theory Lifecycle
  imports Node
begin

text \<open>
  The life of a node (\<open>Node::run\<close>, \<open>Node::shutdown\<close> of \<open>src/src/node/mod.rs\<close>): the
  statements of \<open>run\<close> and of the two tasks it spawns, and their interleavings.

  Each task has a program counter that names its next statement, a step executes one statement,
  and on a multi-threaded runtime the steps of \<open>run\<close>, of the polling task and of the shutdown
  task interleave in any order. The wait for the inner node and the joins of the tasks have
  timeouts, so the shutdown task can always go on; what it waits for is left to the scheduler.
\<close>

section \<open>The statements\<close>

datatype 'x run_pc =
    RunIdle
  | RunSetStarted
  | RunSpawnNode
  | RunSpawnUpdate
  | RunSpawnShutdown
  | RunStoreTask
  | RunSetActive
  | RunReturned "'x NodeError + unit"

datatype update_pc = UpdateNone | UpdateSelect | UpdatePoll | UpdateDone | UpdatePanicked

datatype shutdown_pc =
    ShutdownNone
  | ShutdownSelect
  | SetKillSignal
  | SetShuttingDown
  | CancelToken
  | AwaitStopped
  | JoinNode
  | JoinUpdate
  | FlushChain
  | SetInactive
  | ShutdownDone

text \<open>
  \<open>run_results\<close> collects what the calls of \<open>run\<close> returned, \<open>flushes\<close> counts the flushes of the
  chain state, and \<open>node_task\<close> says whether the inner node was started.
\<close>

record ('n, 'r, 'w, 'x) sys = "('n, 'r, 'w) Node" +
  run_at :: "'x run_pc"
  update_at :: update_pc
  shutdown_at :: shutdown_pc
  node_task :: bool
  flushes :: nat
  run_results :: "('x NodeError + unit) list"

text \<open>
  \<open>run\<close> up to its first await that matters: taking the inner node. A call that finds it taken
  returns at once; the call that takes it goes on.
\<close>

definition run_take :: "('n, 'r, 'w, 'x) sys \<Rightarrow> ('n, 'r, 'w, 'x) sys" where
  "run_take s =
     (if inner s then s\<lparr>inner := False, run_at := RunSetStarted\<rparr>
      else s\<lparr>run_results := run_results s @ [Inl AlreadyRunning]\<rparr>)"

definition run_return :: "'x NodeError + unit \<Rightarrow> ('n, 'r, 'w, 'x) sys \<Rightarrow> ('n, 'r, 'w, 'x) sys" where
  "run_return r s = s\<lparr>run_at := RunReturned r, run_results := run_results s @ [r]\<rparr>"

fun run_step :: "nat \<Rightarrow> ('n, 'r, 'w, 'x) sys \<Rightarrow> ('n, 'r, 'w, 'x) sys option" where
  "run_step now s =
     (case run_at s of
        RunIdle \<Rightarrow> None
      | RunSetStarted \<Rightarrow>
          (case started_at s of
             None \<Rightarrow> Some (s\<lparr>started_at := Some now, run_at := RunSpawnNode\<rparr>)
           | Some _ \<Rightarrow> Some (run_return (Inl AlreadyRunning) s))
      | RunSpawnNode \<Rightarrow> Some (s\<lparr>node_task := True, run_at := RunSpawnUpdate\<rparr>)
      | RunSpawnUpdate \<Rightarrow> Some (s\<lparr>update_at := UpdateSelect, run_at := RunSpawnShutdown\<rparr>)
      | RunSpawnShutdown \<Rightarrow> Some (s\<lparr>shutdown_at := ShutdownSelect, run_at := RunStoreTask\<rparr>)
      | RunStoreTask \<Rightarrow> Some (s\<lparr>shutdown_task := True, run_at := RunSetActive\<rparr>)
      | RunSetActive \<Rightarrow> Some (run_return (Inr ()) (s\<lparr>state := Active\<rparr>))
      | RunReturned _ \<Rightarrow> None)"

text \<open>The statements of the shutdown task after its \<open>select!\<close>.\<close>

fun shutdown_step :: "('n, 'r, 'w, 'x) sys \<Rightarrow> ('n, 'r, 'w, 'x) sys option" where
  "shutdown_step s =
     (case shutdown_at s of
        ShutdownNone \<Rightarrow> None
      | ShutdownSelect \<Rightarrow> None
      | SetKillSignal \<Rightarrow> Some (s\<lparr>kill_signal := True, shutdown_at := SetShuttingDown\<rparr>)
      | SetShuttingDown \<Rightarrow> Some (s\<lparr>state := ShuttingDown, shutdown_at := CancelToken\<rparr>)
      | CancelToken \<Rightarrow> Some (s\<lparr>cancellation_token := True, shutdown_at := AwaitStopped\<rparr>)
      | AwaitStopped \<Rightarrow> Some (s\<lparr>shutdown_at := JoinNode\<rparr>)
      | JoinNode \<Rightarrow> Some (s\<lparr>shutdown_at := JoinUpdate\<rparr>)
      | JoinUpdate \<Rightarrow> Some (s\<lparr>shutdown_at := FlushChain\<rparr>)
      | FlushChain \<Rightarrow> Some (s\<lparr>flushes := Suc (flushes s), shutdown_at := SetInactive\<rparr>)
      | SetInactive \<Rightarrow> Some (s\<lparr>state := Inactive, shutdown_at := ShutdownDone\<rparr>)
      | ShutdownDone \<Rightarrow> None)"

text \<open>One round of the polling task after its \<open>sleep\<close>, with the tips it read.\<close>

definition update_poll :: "bool \<Rightarrow> ('x, 'p, 'h) tips \<Rightarrow> ('n, 'r, 'w, 'x) sys \<Rightarrow> ('n, 'r, 'w, 'x) sys" where
  "update_poll oc o1 s =
     (case status_poll oc o1 (state s) of
        None \<Rightarrow> s\<lparr>update_at := UpdatePanicked\<rparr>
      | Some (t, _) \<Rightarrow> s\<lparr>state := t, update_at := UpdateSelect\<rparr>)"

text \<open>
  The two statements of \<open>Node::shutdown\<close>: it cancels the token (as any holder of a clone may)
  and takes the handle of the shutdown task, which it awaits. It returns \<open>Ok\<close> on every path.
\<close>

definition shutdown_cancel :: "('n, 'r, 'w, 'x) sys \<Rightarrow> ('n, 'r, 'w, 'x) sys" where
  "shutdown_cancel s = s\<lparr>cancellation_token := True\<rparr>"

definition shutdown_take :: "('n, 'r, 'w, 'x) sys \<Rightarrow> ('n, 'r, 'w, 'x) sys" where
  "shutdown_take s = s\<lparr>shutdown_task := False\<rparr>"

text \<open>A node on its own, before any call of \<open>run\<close>.\<close>

definition start_sys :: "('n, 'r, 'w) Node \<Rightarrow> ('n, 'r, 'w, 'x) sys" where
  "start_sys n = \<lparr>inner = inner n, config = config n, state = state n, started_at = started_at n,
     actions = actions n, cancellation_token = cancellation_token n, kill_signal = kill_signal n,
     shutdown_task = shutdown_task n, log_guard = log_guard n, backend = backend n, run_at = RunIdle,
     update_at = UpdateNone, shutdown_at = ShutdownNone, node_task = False, flushes = 0, run_results = []\<rparr>"

section \<open>The interleavings\<close>

text \<open>
  \<open>oc\<close> says whether the build has overflow checks. Of the peers a poll reads only their number
  matters, so a peer is a unit here.
\<close>

inductive step ::
  "bool \<Rightarrow> ('n, 'r, 'w, 'x) sys \<Rightarrow> ('n, 'r, 'w, 'x) sys \<Rightarrow> bool"
  for oc where
  call_run: "step oc s (run_take s)"
| run_goes_on: "run_step now s = Some t \<Longrightarrow> step oc s t"
| update_wakes: "update_at s = UpdateSelect \<Longrightarrow> step oc s (s\<lparr>update_at := UpdatePoll\<rparr>)"
| update_cancelled: "update_at s = UpdateSelect \<Longrightarrow> cancellation_token s \<Longrightarrow>
    step oc s (s\<lparr>update_at := UpdateDone\<rparr>)"
| update_polls: "update_at s = UpdatePoll \<Longrightarrow>
    step oc s (update_poll oc (o1 :: ('x, unit, BlockHash) tips) s)"
| sigint: "shutdown_at s = ShutdownSelect \<Longrightarrow> step oc s (s\<lparr>shutdown_at := SetKillSignal\<rparr>)"
| shutdown_requested: "shutdown_at s = ShutdownSelect \<Longrightarrow> cancellation_token s \<Longrightarrow>
    step oc s (s\<lparr>shutdown_at := SetKillSignal\<rparr>)"
| shutdown_goes_on: "shutdown_step s = Some t \<Longrightarrow> step oc s t"
| cancel: "step oc s (shutdown_cancel s)"
| take_task: "step oc s (shutdown_take s)"
| other_tasks: "step oc s (s\<lparr>backend := w, actions := A\<rparr>)"

text \<open>The steps of the node's own tasks alone, when nobody else calls \<open>run\<close> or \<open>shutdown\<close>.\<close>

inductive task_step :: "bool \<Rightarrow> ('n, 'r, 'w, 'x) sys \<Rightarrow> ('n, 'r, 'w, 'x) sys \<Rightarrow> bool" for oc where
  run_goes_on: "run_step now s = Some t \<Longrightarrow> task_step oc s t"
| update_wakes: "update_at s = UpdateSelect \<Longrightarrow> task_step oc s (s\<lparr>update_at := UpdatePoll\<rparr>)"
| update_cancelled: "update_at s = UpdateSelect \<Longrightarrow> cancellation_token s \<Longrightarrow>
    task_step oc s (s\<lparr>update_at := UpdateDone\<rparr>)"
| update_polls: "update_at s = UpdatePoll \<Longrightarrow>
    task_step oc s (update_poll oc (o1 :: ('x, unit, BlockHash) tips) s)"
| sigint: "shutdown_at s = ShutdownSelect \<Longrightarrow> task_step oc s (s\<lparr>shutdown_at := SetKillSignal\<rparr>)"
| shutdown_requested: "shutdown_at s = ShutdownSelect \<Longrightarrow> cancellation_token s \<Longrightarrow>
    task_step oc s (s\<lparr>shutdown_at := SetKillSignal\<rparr>)"
| shutdown_goes_on: "shutdown_step s = Some t \<Longrightarrow> task_step oc s t"
| other_tasks: "task_step oc s (s\<lparr>backend := w, actions := A\<rparr>)"

lemma task_step_is_step: "task_step oc s t \<Longrightarrow> step oc s t"
  by (induction rule: task_step.induct) (auto intro: step.intros)

text \<open>The node as \<open>Builder::build\<close> leaves it.\<close>

definition built :: "('n, 'r, 'w, 'x) sys \<Rightarrow> bool" where
  "built s \<longleftrightarrow> inner s \<and> state s = Inactive \<and> started_at s = None \<and> actions s = {} \<and>
     \<not> cancellation_token s \<and> \<not> kill_signal s \<and> \<not> shutdown_task s \<and> run_at s = RunIdle \<and>
     update_at s = UpdateNone \<and> shutdown_at s = ShutdownNone \<and> \<not> node_task s \<and> flushes s = 0 \<and>
     run_results s = []"

inductive reachable ::
  "bool \<Rightarrow> ('n, 'r, 'w, 'x) sys \<Rightarrow> bool" for oc where
  start: "built s \<Longrightarrow> reachable oc s"
| go: "reachable oc s \<Longrightarrow> step oc s t \<Longrightarrow> reachable oc t"

inductive steps ::
  "bool \<Rightarrow> ('n, 'r, 'w, 'x) sys \<Rightarrow> ('n, 'r, 'w, 'x) sys \<Rightarrow> bool"
  for oc where
  steps_refl: "steps oc s s"
| steps_trans: "step oc s t \<Longrightarrow> steps oc t u \<Longrightarrow> steps oc s u"

lemma steps_reachable: "steps oc s t \<Longrightarrow> reachable oc s \<Longrightarrow> reachable oc t"
  by (induction rule: steps.induct) (auto intro: reachable.go)

text \<open>A property every step keeps is kept along every run.\<close>

lemma steps_keep:
  assumes "steps oc s t" and "I s" and "\<And>u v. step oc u v \<Longrightarrow> I u \<Longrightarrow> I v"
  shows "I t"
  using assms by (induction rule: steps.induct) auto

lemma reachable_keep:
  assumes "reachable oc s" and "\<And>u. built u \<Longrightarrow> I u"
    and "\<And>u v. step oc u v \<Longrightarrow> I u \<Longrightarrow> I v"
  shows "I s"
  using assms by (induction rule: reachable.induct) auto

section \<open>What every run keeps\<close>

fun run_done :: "'x run_pc \<Rightarrow> bool" where
  "run_done (RunReturned _) = True"
| "run_done _ = False"

definition before_shutdown :: "shutdown_pc \<Rightarrow> bool" where
  "before_shutdown pc \<longleftrightarrow> pc \<in> {ShutdownNone, ShutdownSelect, SetKillSignal, SetShuttingDown}"

definition mid_shutdown :: "shutdown_pc \<Rightarrow> bool" where
  "mid_shutdown pc \<longleftrightarrow>
     pc \<in> {CancelToken, AwaitStopped, JoinNode, JoinUpdate, FlushChain, SetInactive}"

text \<open>What the position of \<open>run\<close> says of the node and of the tasks.\<close>

fun run_facts :: "'x run_pc \<Rightarrow> ('n, 'r, 'w, 'x) sys \<Rightarrow> bool" where
  "run_facts RunIdle s \<longleftrightarrow> inner s \<and> started_at s = None \<and> \<not> node_task s \<and>
     update_at s = UpdateNone \<and> shutdown_at s = ShutdownNone"
| "run_facts RunSetStarted s \<longleftrightarrow> \<not> inner s \<and> started_at s = None \<and> \<not> node_task s \<and>
     update_at s = UpdateNone \<and> shutdown_at s = ShutdownNone"
| "run_facts RunSpawnNode s \<longleftrightarrow> \<not> inner s \<and> started_at s \<noteq> None \<and> \<not> node_task s \<and>
     update_at s = UpdateNone \<and> shutdown_at s = ShutdownNone"
| "run_facts RunSpawnUpdate s \<longleftrightarrow> \<not> inner s \<and> started_at s \<noteq> None \<and> node_task s \<and>
     update_at s = UpdateNone \<and> shutdown_at s = ShutdownNone"
| "run_facts RunSpawnShutdown s \<longleftrightarrow> \<not> inner s \<and> started_at s \<noteq> None \<and> node_task s \<and>
     update_at s \<noteq> UpdateNone \<and> shutdown_at s = ShutdownNone"
| "run_facts RunStoreTask s \<longleftrightarrow> \<not> inner s \<and> started_at s \<noteq> None \<and> node_task s \<and>
     update_at s \<noteq> UpdateNone \<and> shutdown_at s \<noteq> ShutdownNone"
| "run_facts RunSetActive s \<longleftrightarrow> \<not> inner s \<and> started_at s \<noteq> None \<and> node_task s \<and>
     update_at s \<noteq> UpdateNone \<and> shutdown_at s \<noteq> ShutdownNone"
| "run_facts (RunReturned r) s \<longleftrightarrow> r = Inr () \<and> \<not> inner s \<and> started_at s \<noteq> None \<and> node_task s \<and>
     update_at s \<noteq> UpdateNone \<and> shutdown_at s \<noteq> ShutdownNone"

definition run_inv :: "('n, 'r, 'w, 'x) sys \<Rightarrow> bool" where
  "run_inv s \<longleftrightarrow> run_facts (run_at s) s"

text \<open>What the position of the shutdown task says of the signals and the flush.\<close>

fun shutdown_facts :: "shutdown_pc \<Rightarrow> ('n, 'r, 'w, 'x) sys \<Rightarrow> bool" where
  "shutdown_facts SetShuttingDown s \<longleftrightarrow> kill_signal s \<and> flushes s = 0"
| "shutdown_facts CancelToken s \<longleftrightarrow> kill_signal s \<and> flushes s = 0"
| "shutdown_facts AwaitStopped s \<longleftrightarrow> kill_signal s \<and> cancellation_token s \<and> flushes s = 0"
| "shutdown_facts JoinNode s \<longleftrightarrow> kill_signal s \<and> cancellation_token s \<and> flushes s = 0"
| "shutdown_facts JoinUpdate s \<longleftrightarrow> kill_signal s \<and> cancellation_token s \<and> flushes s = 0"
| "shutdown_facts FlushChain s \<longleftrightarrow> kill_signal s \<and> cancellation_token s \<and> flushes s = 0"
| "shutdown_facts SetInactive s \<longleftrightarrow> kill_signal s \<and> cancellation_token s \<and> flushes s = 1"
| "shutdown_facts ShutdownDone s \<longleftrightarrow> kill_signal s \<and> cancellation_token s \<and> flushes s = 1"
| "shutdown_facts _ s \<longleftrightarrow> \<not> kill_signal s \<and> flushes s = 0"

definition shutdown_inv :: "('n, 'r, 'w, 'x) sys \<Rightarrow> bool" where
  "shutdown_inv s \<longleftrightarrow> shutdown_facts (shutdown_at s) s"

text \<open>
  Before \<open>run\<close> returns, only the shutdown task has written the state; after, and before the
  shutdown task writes it, it is one the polls can reach.
\<close>

definition state_inv :: "('n, 'r, 'w, 'x) sys \<Rightarrow> bool" where
  "state_inv s \<longleftrightarrow> state s \<notin> {DnsBootstrapping, Backfill} \<and>
     (if run_done (run_at s) then before_shutdown (shutdown_at s) \<longrightarrow> \<not> frozen (state s)
      else frozen (state s) \<and> (before_shutdown (shutdown_at s) \<longrightarrow> state s = Inactive))"

definition results_inv :: "('n, 'r, 'w, 'x) sys \<Rightarrow> bool" where
  "results_inv s \<longleftrightarrow>
     filter (\<lambda>r. r \<noteq> Inl AlreadyRunning) (run_results s) = (if run_done (run_at s) then [Inr ()] else [])"

lemmas step_defs = run_take_def run_return_def update_poll_def shutdown_cancel_def shutdown_take_def
lemmas inv_defs = run_inv_def shutdown_inv_def state_inv_def results_inv_def

text \<open>The fields the two tables do not mention.\<close>

lemma run_facts_frame [simp]:
  "run_facts pc (s\<lparr>state := x1\<rparr>) = run_facts pc s"
  "run_facts pc (s\<lparr>cancellation_token := x2\<rparr>) = run_facts pc s"
  "run_facts pc (s\<lparr>shutdown_task := x3\<rparr>) = run_facts pc s"
  "run_facts pc (s\<lparr>kill_signal := x3\<rparr>) = run_facts pc s"
  "run_facts pc (s\<lparr>actions := x4\<rparr>) = run_facts pc s"
  "run_facts pc (s\<lparr>backend := x5\<rparr>) = run_facts pc s"
  "run_facts pc (s\<lparr>flushes := x6\<rparr>) = run_facts pc s"
  "run_facts pc (s\<lparr>run_results := x7\<rparr>) = run_facts pc s"
  "run_facts pc (s\<lparr>run_at := x8\<rparr>) = run_facts pc s"
  "update_at s \<noteq> UpdateNone \<Longrightarrow> u \<noteq> UpdateNone \<Longrightarrow>
     run_facts pc (s\<lparr>update_at := u\<rparr>) = run_facts pc s"
  "shutdown_at s \<noteq> ShutdownNone \<Longrightarrow> v \<noteq> ShutdownNone \<Longrightarrow>
     run_facts pc (s\<lparr>shutdown_at := v\<rparr>) = run_facts pc s"
  by (cases pc; simp)+

lemma shutdown_facts_frame [simp]:
  "shutdown_facts pc (s\<lparr>state := x1\<rparr>) = shutdown_facts pc s"
  "shutdown_facts pc (s\<lparr>shutdown_task := x3\<rparr>) = shutdown_facts pc s"
  "shutdown_facts pc (s\<lparr>inner := x3\<rparr>) = shutdown_facts pc s"
  "shutdown_facts pc (s\<lparr>started_at := x9\<rparr>) = shutdown_facts pc s"
  "shutdown_facts pc (s\<lparr>node_task := x3\<rparr>) = shutdown_facts pc s"
  "shutdown_facts pc (s\<lparr>actions := x4\<rparr>) = shutdown_facts pc s"
  "shutdown_facts pc (s\<lparr>backend := x5\<rparr>) = shutdown_facts pc s"
  "shutdown_facts pc (s\<lparr>run_results := x7\<rparr>) = shutdown_facts pc s"
  "shutdown_facts pc (s\<lparr>run_at := x8\<rparr>) = shutdown_facts pc s"
  "shutdown_facts pc (s\<lparr>update_at := u\<rparr>) = shutdown_facts pc s"
  "shutdown_facts pc (s\<lparr>shutdown_at := v\<rparr>) = shutdown_facts pc s"
  "shutdown_facts pc s \<Longrightarrow> shutdown_facts pc (s\<lparr>cancellation_token := True\<rparr>)"
  by (cases pc; simp)+

text \<open>The three components, one after the other.\<close>

lemma run_take_inv:
  assumes "run_inv s" and "shutdown_inv s" and "state_inv s" and "results_inv s"
  shows "run_inv (run_take s) \<and> shutdown_inv (run_take s) \<and> state_inv (run_take s) \<and>
    results_inv (run_take s)"
  using assms by (cases "run_at s") (auto simp: inv_defs run_take_def)

lemma run_step_cases [consumes 2]:
  assumes "run_step now s = Some t" and "run_inv s"
  obtains (SetStarted) "run_at s = RunSetStarted"
      "t = s\<lparr>started_at := Some now, run_at := RunSpawnNode\<rparr>"
  | (SpawnNode) "run_at s = RunSpawnNode" "t = s\<lparr>node_task := True, run_at := RunSpawnUpdate\<rparr>"
  | (SpawnUpdate) "run_at s = RunSpawnUpdate"
      "t = s\<lparr>update_at := UpdateSelect, run_at := RunSpawnShutdown\<rparr>"
  | (SpawnShutdown) "run_at s = RunSpawnShutdown"
      "t = s\<lparr>shutdown_at := ShutdownSelect, run_at := RunStoreTask\<rparr>"
  | (StoreTask) "run_at s = RunStoreTask" "t = s\<lparr>shutdown_task := True, run_at := RunSetActive\<rparr>"
  | (SetActive) "run_at s = RunSetActive" "t = run_return (Inr ()) (s\<lparr>state := Active\<rparr>)"
proof (cases "run_at s")
  case RunIdle
  with assms show ?thesis by simp
next
  case RunSetStarted
  show ?thesis by (rule SetStarted) (use RunSetStarted assms in \<open>simp_all add: run_inv_def\<close>)
next
  case RunSpawnNode
  show ?thesis by (rule SpawnNode) (use RunSpawnNode assms in \<open>simp_all add: run_inv_def\<close>)
next
  case RunSpawnUpdate
  show ?thesis by (rule SpawnUpdate) (use RunSpawnUpdate assms in \<open>simp_all add: run_inv_def\<close>)
next
  case RunSpawnShutdown
  show ?thesis by (rule SpawnShutdown) (use RunSpawnShutdown assms in \<open>simp_all add: run_inv_def\<close>)
next
  case RunStoreTask
  show ?thesis by (rule StoreTask) (use RunStoreTask assms in \<open>simp_all add: run_inv_def\<close>)
next
  case RunSetActive
  show ?thesis by (rule SetActive) (use RunSetActive assms in \<open>simp_all add: run_inv_def\<close>)
next
  case (RunReturned r)
  with assms show ?thesis by simp
qed

lemma run_step_inv:
  assumes "run_step now s = Some t" and "run_inv s" and "shutdown_inv s" and "state_inv s"
    and "results_inv s"
  shows "run_inv t \<and> shutdown_inv t \<and> state_inv t \<and> results_inv t"
  using assms(1,2)
  by (cases rule: run_step_cases; insert assms(2-5); simp add: inv_defs run_return_def before_shutdown_def)

lemma shutdown_step_inv:
  assumes "shutdown_step s = Some t" and "run_inv s" and "shutdown_inv s" and "state_inv s"
    and "results_inv s"
  shows "run_inv t \<and> shutdown_inv t \<and> state_inv t \<and> results_inv t"
  using assms
  by (cases "shutdown_at s") (auto simp: inv_defs before_shutdown_def)

lemma update_poll_inv:
  assumes "update_at s = UpdatePoll" and "run_inv s" and "shutdown_inv s" and "state_inv s"
    and "results_inv s"
  shows "run_inv (update_poll oc o1 s) \<and> shutdown_inv (update_poll oc o1 s) \<and>
    state_inv (update_poll oc o1 s) \<and> results_inv (update_poll oc o1 s)"
proof (cases "status_poll oc o1 (state s)")
  case None
  with assms show ?thesis by (simp add: update_poll_def inv_defs)
next
  case (Some tb)
  obtain t b where tb: "tb = (t, b)" by force
  note poll = status_poll_frozen [OF Some [unfolded tb]]
  have "t \<notin> {DnsBootstrapping, Backfill}"
    using poll assms(4) by (cases "frozen (state s)") (auto simp: state_inv_def)
  moreover have "frozen t = frozen (state s)" using poll by blast
  ultimately show ?thesis
    using assms Some tb poll(1) by (auto simp: update_poll_def inv_defs)
qed

definition lifecycle_inv :: "('n, 'r, 'w, 'x) sys \<Rightarrow> bool" where
  "lifecycle_inv s \<longleftrightarrow> run_inv s \<and> shutdown_inv s \<and> state_inv s \<and> results_inv s"

lemma step_inv:
  assumes "step oc s t" and "lifecycle_inv s"
  shows "lifecycle_inv t"
  using assms unfolding lifecycle_inv_def
proof (induction rule: step.induct)
  case (call_run s)
  then show ?case by (simp add: run_take_inv)
next
  case (run_goes_on now s t)
  then show ?case using run_step_inv by blast
next
  case (shutdown_goes_on s t)
  then show ?case using shutdown_step_inv by blast
next
  case (update_polls s o1)
  then show ?case by (simp add: update_poll_inv)
qed (simp_all add: inv_defs before_shutdown_def shutdown_cancel_def shutdown_take_def)

lemma built_inv: "built s \<Longrightarrow> lifecycle_inv s"
  by (simp add: built_def lifecycle_inv_def inv_defs before_shutdown_def)

lemma reachable_inv: "reachable oc s \<Longrightarrow> lifecycle_inv s"
  by (erule reachable_keep) (fact built_inv, fact step_inv)

text \<open>A node on which nothing of a shutdown has begun and no poll is under way.\<close>

definition calm_node :: "('n, 'r, 'w, 'x) sys \<Rightarrow> bool" where
  "calm_node l \<longleftrightarrow> shutdown_at l \<in> {ShutdownNone, ShutdownSelect} \<and> \<not> kill_signal l \<and> \<not> cancellation_token l \<and>
     flushes l = 0 \<and> update_at l \<in> {UpdateNone, UpdateSelect} \<and> (run_done (run_at l) \<longrightarrow> state l = Active)"

lemma calm_run_step: "run_step now l = Some l' \<Longrightarrow> lifecycle_inv l \<Longrightarrow> calm_node l \<Longrightarrow> calm_node l'"
  by (cases "run_at l") (auto simp: calm_node_def run_return_def lifecycle_inv_def run_inv_def)

lemma calm_built: "built l \<Longrightarrow> calm_node l"
  by (simp add: built_def calm_node_def)

lemma calm_calls: "calm_node l \<Longrightarrow> calm_node (run_take l)" "calm_node l \<Longrightarrow> calm_node (shutdown_take l)"
  by (auto simp: calm_node_def run_take_def shutdown_take_def)

text \<open>A poll of synced tips makes such a node operational once \<open>run\<close> has returned.\<close>

lemma calm_becomes_operational:
  fixes l :: "('n, 'r, 'w, 'x) sys"
  assumes "calm_node l" and "run_done (run_at l)" and "lifecycle_inv l"
  shows "\<exists>l'. rtranclp (task_step oc) l l' \<and> state l' = Operational \<and> \<not> kill_signal l' \<and> \<not> cancellation_token l' \<and>
    flushes l' = 0"
proof -
  let ?tips = "\<lparr>peer_info = Inr [()], best_block = Inr (100, 7), validation_index = Inr 100, filter_tip = Inr 100\<rparr> :: ('x, unit, BlockHash) tips"
  from assms(2,3) have "update_at l \<noteq> UpdateNone" by (cases "run_at l") (auto simp: lifecycle_inv_def run_inv_def)
  with assms(1) have u: "update_at l = UpdateSelect" by (simp add: calm_node_def)
  let ?l = "l\<lparr>update_at := UpdatePoll\<rparr>"
  have "task_step oc l ?l" by (rule task_step.update_wakes [OF u])
  moreover have "task_step oc ?l (update_poll oc ?tips ?l)" by (rule task_step.update_polls) simp
  moreover have "status_poll oc ?tips Active = Some (Operational, True)"
    by (simp add: status_poll_def wire_ready_def send_next_state_def compute_next_state_Active)
  with assms(1,2) have "update_poll oc ?tips ?l = ?l\<lparr>state := Operational, update_at := UpdateSelect\<rparr>"
    by (simp add: update_poll_def calm_node_def)
  ultimately show ?thesis using assms(1)
    by (intro exI [of _ "?l\<lparr>state := Operational, update_at := UpdateSelect\<rparr>"]) (auto simp: calm_node_def)
qed

section \<open>Executing a schedule\<close>

datatype 'x move =
    CallRun
  | RunGoesOn nat
  | UpdateWakes
  | UpdateCancelled
  | UpdatePolls "('x, unit, BlockHash) tips"
  | Sigint
  | ShutdownRequested
  | ShutdownGoesOn
  | Cancel

fun exec_move :: "bool \<Rightarrow> 'x move \<Rightarrow> ('n, 'r, 'w, 'x) sys \<Rightarrow> ('n, 'r, 'w, 'x) sys option" where
  "exec_move oc CallRun s = Some (run_take s)"
| "exec_move oc (RunGoesOn now) s = run_step now s"
| "exec_move oc UpdateWakes s =
     (if update_at s = UpdateSelect then Some (s\<lparr>update_at := UpdatePoll\<rparr>) else None)"
| "exec_move oc UpdateCancelled s =
     (if update_at s = UpdateSelect \<and> cancellation_token s
      then Some (s\<lparr>update_at := UpdateDone\<rparr>) else None)"
| "exec_move oc (UpdatePolls o1) s =
     (if update_at s = UpdatePoll then Some (update_poll oc o1 s) else None)"
| "exec_move oc Sigint s =
     (if shutdown_at s = ShutdownSelect then Some (s\<lparr>shutdown_at := SetKillSignal\<rparr>) else None)"
| "exec_move oc ShutdownRequested s =
     (if shutdown_at s = ShutdownSelect \<and> cancellation_token s
      then Some (s\<lparr>shutdown_at := SetKillSignal\<rparr>) else None)"
| "exec_move oc ShutdownGoesOn s = shutdown_step s"
| "exec_move oc Cancel s = Some (shutdown_cancel s)"

fun exec_moves :: "bool \<Rightarrow> 'x move list \<Rightarrow> ('n, 'r, 'w, 'x) sys \<Rightarrow> ('n, 'r, 'w, 'x) sys option" where
  "exec_moves oc [] s = Some s"
| "exec_moves oc (m # ms) s =
     (case exec_move oc m s of None \<Rightarrow> None | Some t \<Rightarrow> exec_moves oc ms t)"

lemma exec_move_step: "exec_move oc m s = Some t \<Longrightarrow> step oc s t"
  by (cases m)
    (auto intro: step.intros simp del: run_step.simps shutdown_step.simps split: if_splits)

lemma exec_moves_steps: "exec_moves oc ms s = Some t \<Longrightarrow> steps oc s t"
  by (induction ms arbitrary: s)
    (auto intro: steps.intros exec_move_step split: option.splits)

definition built_sys :: "(nat, nat, unit, nat) sys" where
  "built_sys = \<lparr>inner = True, config = sample_config, state = Inactive, started_at = None,
     actions = {}, cancellation_token = False, kill_signal = False, shutdown_task = False,
     log_guard = False, backend = (), run_at = RunIdle, update_at = UpdateNone,
     shutdown_at = ShutdownNone, node_task = False, flushes = 0, run_results = []\<rparr>"

lemma built_sys_reachable: "exec_moves oc ms built_sys = Some s \<Longrightarrow> reachable oc s"
  by (rule steps_reachable [OF exec_moves_steps])
    (auto intro: reachable.start simp: built_def built_sys_def)

text \<open>A run to the polling of an operational node, and the statements of a shutdown.\<close>

definition start_moves :: "nat move list" where
  "start_moves = [CallRun, RunGoesOn 0, RunGoesOn 0, RunGoesOn 0, RunGoesOn 0, RunGoesOn 0]"

definition shutdown_moves :: "nat move list" where
  "shutdown_moves = replicate 8 ShutdownGoesOn"

definition running_sys :: "(nat, nat, unit, nat) sys" where
  "running_sys = built_sys\<lparr>inner := False, state := Active, started_at := Some 0,
     shutdown_task := True, run_at := RunReturned (Inr ()), update_at := UpdateSelect,
     shutdown_at := ShutdownSelect, node_task := True, run_results := [Inr ()]\<rparr>"

lemma running_sys_moves: "exec_moves oc (start_moves @ [RunGoesOn 0]) built_sys = Some running_sys"
  by (simp add: start_moves_def built_sys_def running_sys_def run_take_def run_return_def)

lemma running_sys_reachable: "reachable oc running_sys"
  by (rule built_sys_reachable [OF running_sys_moves])

section \<open>Properties\<close>

text \<open>
  C9. In every interleaving of any number of calls, at most one call of \<open>run\<close> succeeds, every
  other one returns \<open>AlreadyRunning\<close>, the call that took the inner node is never the one that
  fails, and the inner node is running once a call has succeeded.
\<close>

theorem run_succeeds_once:
  assumes "reachable oc s"
  shows "length (filter (\<lambda>r. r = Inr ()) (run_results s)) \<le> 1 \<and>
    set (run_results s) \<subseteq> {Inr (), Inl AlreadyRunning} \<and>
    (\<forall>e. run_at s \<noteq> RunReturned (Inl e)) \<and>
    (Inr () \<in> set (run_results s) \<longrightarrow> node_task s \<and> \<not> inner s \<and> started_at s \<noteq> None)"
proof -
  from reachable_inv [OF assms] have inv: "run_facts (run_at s) s"
    and res: "filter (\<lambda>r. r \<noteq> Inl AlreadyRunning) (run_results s) =
      (if run_done (run_at s) then [Inr ()] else [])"
    by (simp_all add: lifecycle_inv_def inv_defs)
  from arg_cong [OF res, of set] have sub: "set (run_results s) \<subseteq> {Inr (), Inl AlreadyRunning}"
    by (auto split: if_splits)
  have "filter (\<lambda>r. r = Inr ()) (run_results s) = filter (\<lambda>r. r \<noteq> Inl AlreadyRunning) (run_results s)"
    by (rule filter_cong) (use sub in auto)
  with res have len: "length (filter (\<lambda>r. r = Inr ()) (run_results s)) \<le> 1" by simp
  have "Inr () \<in> set (run_results s) \<Longrightarrow> run_done (run_at s)"
    using arg_cong [OF res, of set] by (auto split: if_splits)
  then have "Inr () \<in> set (run_results s) \<longrightarrow> node_task s \<and> \<not> inner s \<and> started_at s \<noteq> None"
    using inv by (cases "run_at s") auto
  moreover have "run_at s \<noteq> RunReturned (Inl e)" for e using inv by auto
  ultimately show ?thesis using sub len by blast
qed

theorem run_succeeds_once_witness:
  "length (filter (\<lambda>r. r = Inr ()) (run_results (run_take running_sys))) \<le> 1"
  using run_succeeds_once [OF reachable.go [OF running_sys_reachable step.call_run]] by blast

text \<open>
  Of the states of the machine, the DNS bootstrap and the backfill are never entered, and a
  node that reports that it is shutting down has told the inner node to stop.
\<close>

theorem reachable_states:
  assumes "reachable oc s"
  shows "state s \<notin> {DnsBootstrapping, Backfill} \<and> (state s = ShuttingDown \<longrightarrow> kill_signal s)"
proof -
  from reachable_inv [OF assms] have "state_inv s" and "shutdown_inv s"
    by (simp_all add: lifecycle_inv_def)
  then show ?thesis
    by (cases "shutdown_at s") (auto simp: inv_defs before_shutdown_def split: if_splits)
qed

theorem reachable_states_witness: "state running_sys \<notin> {DnsBootstrapping, Backfill}"
  using reachable_states [OF running_sys_reachable] by blast

text \<open>The order of the states in a shutdown that starts after \<open>run\<close> has returned.\<close>

definition orderly :: "('n, 'r, 'w, 'x) sys \<Rightarrow> bool" where
  "orderly s \<longleftrightarrow> lifecycle_inv s \<and> run_done (run_at s) \<and>
     (before_shutdown (shutdown_at s) \<longrightarrow> \<not> frozen (state s)) \<and>
     (mid_shutdown (shutdown_at s) \<longrightarrow> state s = ShuttingDown) \<and>
     (shutdown_at s = ShutdownDone \<longrightarrow> state s = Inactive)"

lemma orderly_step:
  assumes "step oc s t" and "orderly s"
  shows "orderly t"
proof -
  from assms have inv: "lifecycle_inv t" using step_inv by (auto simp: orderly_def)
  have "run_done (run_at t) \<and> (before_shutdown (shutdown_at t) \<longrightarrow> \<not> frozen (state t)) \<and>
     (mid_shutdown (shutdown_at t) \<longrightarrow> state t = ShuttingDown) \<and>
     (shutdown_at t = ShutdownDone \<longrightarrow> state t = Inactive)"
    using assms
  proof (induction rule: step.induct)
    case (call_run s)
    then show ?case
      by (cases "run_at s") (auto simp: orderly_def lifecycle_inv_def run_inv_def run_take_def)
  next
    case (run_goes_on now s t)
    then show ?case by (cases "run_at s") (auto simp: orderly_def)
  next
    case (shutdown_goes_on s t)
    then show ?case
      by (cases "shutdown_at s") (auto simp: orderly_def before_shutdown_def mid_shutdown_def)
  next
    case (update_polls s o1)
    then show ?case
      by (fastforce simp: orderly_def update_poll_def split: option.splits dest: status_poll_frozen)
  qed (auto simp: orderly_def before_shutdown_def mid_shutdown_def shutdown_cancel_def shutdown_take_def)
  with inv show ?thesis by (simp add: orderly_def)
qed

text \<open>
  C6. When \<open>run\<close> has returned before the shutdown task announces the shutdown, the state is
  never frozen before, is \<open>ShuttingDown\<close> from the announcement to the end of the shutdown task,
  and is \<open>Inactive\<close> for good after it, whatever the polling task and other calls do.
\<close>

theorem shutdown_is_orderly:
  assumes "reachable oc s" and "run_done (run_at s)" and "before_shutdown (shutdown_at s)"
    and "steps oc s t"
  shows "(before_shutdown (shutdown_at t) \<longrightarrow> \<not> frozen (state t)) \<and>
    (mid_shutdown (shutdown_at t) \<longrightarrow> state t = ShuttingDown) \<and>
    (shutdown_at t = ShutdownDone \<longrightarrow> state t = Inactive)"
proof -
  from reachable_inv [OF assms(1)] assms(2,3) have "orderly s"
    by (auto simp: orderly_def lifecycle_inv_def state_inv_def before_shutdown_def mid_shutdown_def)
  with assms(4) have "orderly t" by (rule steps_keep) (rule orderly_step)
  then show ?thesis by (simp add: orderly_def)
qed

definition stopped_sys :: "(nat, nat, unit, nat) sys" where
  "stopped_sys = running_sys\<lparr>state := Inactive, cancellation_token := True, kill_signal := True,
     shutdown_at := ShutdownDone, flushes := 1\<rparr>"

theorem shutdown_is_orderly_witness: "state stopped_sys = Inactive"
proof -
  have "exec_moves True (Sigint # shutdown_moves) running_sys = Some stopped_sys"
    by (simp add: shutdown_moves_def running_sys_def built_sys_def stopped_sys_def eval_nat_numeral)
  from shutdown_is_orderly [OF running_sys_reachable _ _ exec_moves_steps [OF this]]
  show ?thesis by (simp add: running_sys_def before_shutdown_def stopped_sys_def)
qed

text \<open>A node that reports that it is active while nothing of it runs.\<close>

definition zombie_moves :: "nat move list" where
  "zombie_moves = Cancel # start_moves @ [UpdateCancelled, ShutdownRequested] @ shutdown_moves @
     [RunGoesOn 0]"

definition zombie :: "('n, 'r, 'w, 'x) sys \<Rightarrow> bool" where
  "zombie s \<longleftrightarrow> state s = Active \<and> update_at s = UpdateDone \<and> shutdown_at s = ShutdownDone \<and>
     run_at s = RunReturned (Inr ()) \<and> \<not> inner s"

lemma zombie_step: "step oc s t \<Longrightarrow> zombie s \<Longrightarrow> zombie t"
  by (induction rule: step.induct) (auto simp: zombie_def run_take_def shutdown_cancel_def shutdown_take_def)



text \<open>How many statements the shutdown task still has to execute.\<close>

fun shutdown_rank :: "shutdown_pc \<Rightarrow> nat" where
  "shutdown_rank ShutdownNone = 10"
| "shutdown_rank ShutdownSelect = 9"
| "shutdown_rank SetKillSignal = 8"
| "shutdown_rank SetShuttingDown = 7"
| "shutdown_rank CancelToken = 6"
| "shutdown_rank AwaitStopped = 5"
| "shutdown_rank JoinNode = 4"
| "shutdown_rank JoinUpdate = 3"
| "shutdown_rank FlushChain = 2"
| "shutdown_rank SetInactive = 1"
| "shutdown_rank ShutdownDone = 0"

lemma shutdown_rank_step:
  assumes "step oc s t" and "lifecycle_inv s"
  shows "shutdown_rank (shutdown_at t) \<le> shutdown_rank (shutdown_at s)"
  using assms
proof (induction rule: step.induct)
  case (run_goes_on now s t)
  then show ?case
    by (cases "run_at s") (auto simp: lifecycle_inv_def run_inv_def run_return_def)
next
  case (shutdown_goes_on s t)
  then show ?case by (cases "shutdown_at s") auto
next
  case (update_polls s o1)
  then show ?case by (simp add: update_poll_def split: option.splits)
qed (auto simp: run_take_def shutdown_cancel_def shutdown_take_def)

lemma shutdown_step_rank:
  assumes "shutdown_at s \<notin> {ShutdownNone, ShutdownSelect, ShutdownDone}"
  obtains t where "shutdown_step s = Some t"
    and "shutdown_rank (shutdown_at s) = Suc (shutdown_rank (shutdown_at t))"
    and "shutdown_at t \<notin> {ShutdownNone, ShutdownSelect}"
    and "shutdown_at t = ShutdownDone \<longrightarrow> state t = Inactive"
  using assms by (cases "shutdown_at s") auto

lemma shutdown_runs_out:
  assumes "shutdown_at s \<notin> {ShutdownNone, ShutdownSelect, ShutdownDone}"
  shows "\<exists>t. steps oc s t \<and> shutdown_at t = ShutdownDone \<and> state t = Inactive"
  using assms
proof (induction "shutdown_rank (shutdown_at s)" arbitrary: s)
  case 0
  then show ?case by (cases "shutdown_at s") auto
next
  case (Suc k)
  from shutdown_step_rank [OF Suc.prems] obtain t where t: "shutdown_step s = Some t"
    and rank: "shutdown_rank (shutdown_at s) = Suc (shutdown_rank (shutdown_at t))"
    and on: "shutdown_at t \<notin> {ShutdownNone, ShutdownSelect}"
    and fin: "shutdown_at t = ShutdownDone \<longrightarrow> state t = Inactive" .
  from t have st: "step oc s t" by (rule step.shutdown_goes_on)
  show ?case
  proof (cases "shutdown_at t = ShutdownDone")
    case True
    with fin st show ?thesis by (blast intro: steps.intros)
  next
    case False
    with on Suc.hyps(1) [of t] Suc.hyps(2) rank obtain u
      where "steps oc t u" "shutdown_at u = ShutdownDone" "state u = Inactive" by auto
    with st show ?thesis by (blast intro: steps_trans)
  qed
qed



end
