(* ===== verification/Protocol.thy ===== *)
theory Protocol
  imports Lifecycle
begin

text \<open>
  What a node promises to those who watch it: an abstract account of its life with none of the
  program counters, signals and tasks of \<open>Lifecycle\<close>, that every run of the node keeps to, and
  the sequences of states an observer can see.
\<close>

section \<open>Simulation of runs\<close>

text \<open>
  A run is a sequence of states from a start, each of which a step leads to from the one before.
  A step of the first system is one of the second or is not seen there.
\<close>

definition run_of :: "('s \<Rightarrow> bool) \<Rightarrow> ('s \<Rightarrow> 's \<Rightarrow> bool) \<Rightarrow> 's list \<Rightarrow> bool" where
  "run_of start go ss \<longleftrightarrow> ss \<noteq> [] \<and> start (hd ss) \<and> successively go ss"

locale simulation =
  fixes start1 :: "'s \<Rightarrow> bool" and go1 :: "'s \<Rightarrow> 's \<Rightarrow> bool" and keeps1 :: "'s \<Rightarrow> bool"
    and start2 :: "'a \<Rightarrow> bool" and go2 :: "'a \<Rightarrow> 'a \<Rightarrow> bool" and view :: "'s \<Rightarrow> 'a"
  assumes start_law: "start1 s \<Longrightarrow> keeps1 s \<and> start2 (view s)"
    and keeps_law: "go1 s t \<Longrightarrow> keeps1 s \<Longrightarrow> keeps1 t"
    and go_law: "go1 s t \<Longrightarrow> keeps1 s \<Longrightarrow> view t = view s \<or> go2 (view s) (view t)"
begin

lemma go_on: "successively go1 (s # ss) \<Longrightarrow> keeps1 s \<Longrightarrow> successively go2 (remdups_adj (map view (s # ss)))"
proof (induction ss arbitrary: s)
  case (Cons t ss)
  then have st: "go1 s t" and rest: "successively go2 (remdups_adj (view t # map view ss))"
    using keeps_law by auto
  show ?case
  proof (cases "view t = view s")
    case False
    with go_law [OF st Cons.prems(2)] have "go2 (view s) (view t)" by simp
    moreover obtain as where "remdups_adj (view t # map view ss) = view t # as"
      by (metis list.exhaust_sel list.sel(1) hd_remdups_adj remdups_adj_Nil_iff list.discI)
    ultimately show ?thesis using False rest by auto
  qed (use rest in simp)
qed simp

lemma runs_simulated:
  assumes "run_of start1 go1 ss"
  shows "run_of start2 go2 (remdups_adj (map view ss))"
proof -
  from assms obtain s rest where "ss = s # rest" "start1 s" "successively go1 (s # rest)"
    by (cases ss) (auto simp: run_of_def)
  with start_law [of s] go_on [of s rest] show ?thesis by (auto simp: run_of_def)
qed

end

section \<open>The protocol\<close>

text \<open>
  \<open>up\<close> says whether \<open>run\<close> has returned \<open>Ok\<close>. A shutdown goes through three stages: it is
  announced, then the chain state is flushed, then the node is closed.
\<close>

datatype stage = Serving | Closing | Saved | Closed

record account =
  up :: bool
  stage :: stage
  flushed :: nat
  visible :: State

definition unborn :: "account \<Rightarrow> bool" where
  "unborn a \<longleftrightarrow> \<not> up a \<and> stage a = Serving \<and> flushed a = 0 \<and> visible a = Inactive"

text \<open>
  A node comes up once, and is then seen \<open>Active\<close> and synchronising, never in a frozen state. The
  announcement and the closing of a shutdown are seen, the one flush in between is not.
\<close>

inductive protocol_step :: "account \<Rightarrow> account \<Rightarrow> bool" where
  comes_up: "\<not> up a \<Longrightarrow> protocol_step a (a\<lparr>up := True, visible := Active\<rparr>)"
| syncs: "up a \<Longrightarrow> \<not> frozen (visible a) \<Longrightarrow> \<not> frozen st \<Longrightarrow> protocol_step a (a\<lparr>visible := st\<rparr>)"
| announces: "stage a = Serving \<Longrightarrow> protocol_step a (a\<lparr>stage := Closing, visible := ShuttingDown\<rparr>)"
| saves: "stage a = Closing \<Longrightarrow> protocol_step a (a\<lparr>stage := Saved, flushed := Suc (flushed a)\<rparr>)"
| closes: "stage a = Saved \<Longrightarrow> protocol_step a (a\<lparr>stage := Closed, visible := Inactive\<rparr>)"

fun stage_of :: "shutdown_pc \<Rightarrow> stage" where
  "stage_of CancelToken = Closing"
| "stage_of AwaitStopped = Closing"
| "stage_of JoinNode = Closing"
| "stage_of JoinUpdate = Closing"
| "stage_of FlushChain = Closing"
| "stage_of SetInactive = Saved"
| "stage_of ShutdownDone = Closed"
| "stage_of _ = Serving"

definition account_of :: "('n, 'r, 'w, 'x) sys \<Rightarrow> account" where
  "account_of s = \<lparr>up = run_done (run_at s), stage = stage_of (shutdown_at s), flushed = flushes s, visible = state s\<rparr>"

lemma account_of_simps [simp]:
  "up (account_of s) = run_done (run_at s)" "stage (account_of s) = stage_of (shutdown_at s)"
  "flushed (account_of s) = flushes s" "visible (account_of s) = state s"
  by (simp_all add: account_of_def)

lemma stage_of_Serving: "stage_of pc = Serving \<longleftrightarrow> before_shutdown pc"
  by (cases pc) (simp_all add: before_shutdown_def)

text \<open>A step of the node is one of the protocol, or changes nothing that the account shows.\<close>

lemma protocol_stepI:
  "b = a\<lparr>up := True, visible := Active\<rparr> \<Longrightarrow> \<not> up a \<Longrightarrow> protocol_step a b"
  "b = a\<lparr>visible := st\<rparr> \<Longrightarrow> up a \<Longrightarrow> \<not> frozen (visible a) \<Longrightarrow> \<not> frozen st \<Longrightarrow> protocol_step a b"
  "b = a\<lparr>stage := Closing, visible := ShuttingDown\<rparr> \<Longrightarrow> stage a = Serving \<Longrightarrow> protocol_step a b"
  "b = a\<lparr>stage := Saved, flushed := Suc (flushed a)\<rparr> \<Longrightarrow> stage a = Closing \<Longrightarrow> protocol_step a b"
  "b = a\<lparr>stage := Closed, visible := Inactive\<rparr> \<Longrightarrow> stage a = Saved \<Longrightarrow> protocol_step a b"
  by (auto intro: protocol_step.intros)

lemma run_step_protocol:
  assumes "run_step now s = Some t" and "run_inv s"
  shows "account_of t = account_of s \<or> protocol_step (account_of s) (account_of t)"
  using assms
proof (cases rule: run_step_cases)
  case SetActive
  then have "protocol_step (account_of s) (account_of t)"
    by (intro protocol_stepI(1)) (simp_all add: account_of_def run_return_def)
  then show ?thesis ..
qed (use assms(2) in \<open>simp_all add: account_of_def run_inv_def\<close>)

lemma shutdown_step_protocol:
  assumes "shutdown_step s = Some t"
  shows "account_of t = account_of s \<or> protocol_step (account_of s) (account_of t)"
  using assms
  by (cases "shutdown_at s") (auto simp: account_of_def intro: protocol_stepI)

lemma update_poll_protocol:
  assumes "state_inv s" and "update_at s = UpdatePoll"
  shows "account_of (update_poll oc o1 s) = account_of s \<or>
    protocol_step (account_of s) (account_of (update_poll oc o1 s))"
proof (cases "status_poll oc o1 (state s)")
  case (Some p)
  obtain st m where p: "status_poll oc o1 (state s) = Some (st, m)" using Some by (cases p) auto
  note poll = status_poll_frozen [OF p]
  show ?thesis
  proof (cases "frozen (state s)")
    case True
    with poll p have "account_of (update_poll oc o1 s) = account_of s" by (simp add: update_poll_def account_of_def)
    then show ?thesis ..
  next
    case False
    with assms(1) have "run_done (run_at s)" by (auto simp: state_inv_def split: if_splits)
    with False poll p have "protocol_step (account_of s) (account_of (update_poll oc o1 s))"
      by (intro protocol_stepI(2) [where st = st]) (simp_all add: update_poll_def account_of_def)
    then show ?thesis ..
  qed
qed (simp add: update_poll_def account_of_def)

lemma step_protocol:
  assumes "step oc s t" and "lifecycle_inv s"
  shows "account_of t = account_of s \<or> protocol_step (account_of s) (account_of t)"
  using assms
proof (induction rule: step.induct)
  case (call_run s)
  then show ?case by (cases "run_at s") (auto simp: account_of_def run_take_def lifecycle_inv_def run_inv_def)
next
  case (run_goes_on now s t)
  show ?case by (rule run_step_protocol [OF run_goes_on(1)]) (use run_goes_on(2) in \<open>simp add: lifecycle_inv_def\<close>)
next
  case (update_polls s o1)
  show ?case by (rule update_poll_protocol) (use update_polls in \<open>simp_all add: lifecycle_inv_def\<close>)
next
  case (shutdown_goes_on s t)
  then show ?case by (intro shutdown_step_protocol)
qed (simp_all add: account_of_def shutdown_cancel_def shutdown_take_def)

interpretation observed: simulation built "step oc" lifecycle_inv unborn protocol_step account_of for oc
proof unfold_locales
  fix s :: "('n, 'r, 'w, 'x) sys"
  assume "built s"
  with built_inv [OF this] show "lifecycle_inv s \<and> unborn (account_of s)" by (simp add: built_def unborn_def)
qed (fact step_inv, fact step_protocol)

section \<open>What an observer sees\<close>

text \<open>A life without a shutdown that overtakes \<open>run\<close>, as the sequence of the states that show.\<close>

fun serves :: "State list \<Rightarrow> bool" where
  "serves [] = True"
| "serves (st # sts) = (if st = ShuttingDown then sts \<in> {[], [Inactive]} else \<not> frozen st \<and> serves sts)"

fun orderly_life :: "State list \<Rightarrow> bool" where
  "orderly_life (Inactive # Active # sts) = serves sts"
| "orderly_life sts = (sts = [Inactive])"

lemma serves_snoc:
  "serves (sts @ [st]) \<longleftrightarrow> list_all (\<lambda>x. \<not> frozen x) sts \<and> (\<not> frozen st \<or> st = ShuttingDown) \<or>
    (\<exists>before. sts = before @ [ShuttingDown] \<and> list_all (\<lambda>x. \<not> frozen x) before \<and> st = Inactive)"
proof (induction sts)
  case (Cons x sts)
  show ?case
  proof (cases "x = ShuttingDown")
    case True
    then show ?thesis by (cases sts) (auto simp: Cons_eq_append_conv)
  next
    case False
    with Cons show ?thesis by (auto simp: Cons_eq_append_conv)
  qed
qed auto

text \<open>What has been seen so far, by what the account has come to.\<close>

definition seen_ok :: "account \<Rightarrow> State list \<Rightarrow> bool" where
  "seen_ok a vs \<longleftrightarrow>
     (if \<not> up a then stage a = Serving \<and> vs = [Inactive]
      else \<exists>sts. list_all (\<lambda>x. \<not> frozen x) sts \<and> sts \<noteq> [] \<and> hd sts = Active \<and>
        (case stage a of
           Serving \<Rightarrow> vs = Inactive # sts \<and> visible a = last sts
         | Closed \<Rightarrow> vs = Inactive # sts @ [ShuttingDown, Inactive] \<and> visible a = Inactive
         | _ \<Rightarrow> vs = Inactive # sts @ [ShuttingDown] \<and> visible a = ShuttingDown))"

lemma serves_unfrozen: "list_all (\<lambda>x. \<not> frozen x) sts \<Longrightarrow> serves (sts @ rest) \<longleftrightarrow> serves rest"
  by (induction sts) auto

lemma seen_ok_orderly: "seen_ok a vs \<Longrightarrow> orderly_life vs"
proof (cases "up a")
  case True
  moreover assume "seen_ok a vs"
  ultimately obtain sts where "list_all (\<lambda>x. \<not> frozen x) sts" "sts \<noteq> []" "hd sts = Active"
    "vs \<in> {Inactive # sts, Inactive # sts @ [ShuttingDown, Inactive], Inactive # sts @ [ShuttingDown]}"
    by (cases "stage a") (auto simp: seen_ok_def)
  moreover from this obtain more where "sts = Active # more" by (cases sts) auto
  ultimately show ?thesis using serves_unfrozen [of more] serves_unfrozen [of more "[]"] by auto
qed (simp add: seen_ok_def)

definition sees :: "State \<Rightarrow> State list \<Rightarrow> State list" where
  "sees st vs = (if last vs = st then vs else vs @ [st])"

lemma seen_ok_step:
  assumes "protocol_step a b" and "seen_ok a vs" and "\<not> up b \<longrightarrow> stage b = Serving"
  shows "seen_ok b (sees (visible b) vs)"
  using assms
proof (induction rule: protocol_step.induct)
  case (comes_up a)
  then show ?case by (auto simp: seen_ok_def sees_def intro!: exI [of _ "[Active]"])
next
  case (syncs a st)
  then obtain sts where sts: "list_all (\<lambda>x. \<not> frozen x) sts" "sts \<noteq> []" "hd sts = Active" "vs = Inactive # sts"
    "visible a = last sts" "stage a = Serving"
    by (cases "stage a") (auto simp: seen_ok_def)
  then show ?case
    using syncs by (auto simp: seen_ok_def sees_def intro!: exI [of _ "if last sts = st then sts else sts @ [st]"])
next
  case (announces a)
  then obtain sts where sts: "list_all (\<lambda>x. \<not> frozen x) sts" "sts \<noteq> []" "hd sts = Active" "vs = Inactive # sts"
    by (auto simp: seen_ok_def split: if_splits)
  then have "last sts \<noteq> ShuttingDown" by (metis frozen.simps(1) last_in_set list.pred_set)
  with sts announces show ?case by (auto simp: seen_ok_def sees_def)
next
  case (saves a)
  then show ?case by (auto simp: seen_ok_def sees_def)
next
  case (closes a)
  then show ?case by (auto simp: seen_ok_def sees_def)
qed

lemma remdups_adj_map_remdups_adj: "remdups_adj (map f (remdups_adj xs)) = remdups_adj (map f xs)"
proof (induction xs rule: remdups_adj.induct)
  case (3 x y xs)
  obtain as where "remdups_adj (y # xs) = y # as"
    by (metis hd_remdups_adj list.exhaust_sel list.sel(1) list.discI remdups_adj_Nil_iff)
  with 3 show ?case by (cases "x = y") auto
qed simp_all

lemma remdups_adj_snoc_sees:
  "vs \<noteq> [] \<Longrightarrow> remdups_adj (vs @ [st]) = sees st (remdups_adj vs)"
  by (cases vs rule: rev_cases) (auto simp: remdups_adj_append_two sees_def)

lemma run_seen_ok:
  assumes "run_of unborn protocol_step as" and "\<And>a. a \<in> set as \<Longrightarrow> up a \<or> stage a = Serving"
  shows "seen_ok (last as) (remdups_adj (map visible as))"
  using assms
proof (induction as rule: rev_induct)
  case (snoc b as)
  show ?case
  proof (cases as rule: rev_cases)
    case Nil
    with snoc.prems(1) show ?thesis by (simp add: run_of_def unborn_def seen_ok_def)
  next
    case (snoc before a)
    then have go: "successively protocol_step ((before @ [a]) @ [b])" and hd: "unborn (hd ((before @ [a]) @ [b]))"
      using snoc.prems(1) by (simp_all add: run_of_def)
    from go have "successively protocol_step (before @ [a])" "protocol_step a b"
      unfolding successively_append_iff [of _ "before @ [a]"] by simp_all
    moreover have "unborn (hd (before @ [a]))" using hd by (cases before) simp_all
    ultimately have "run_of unborn protocol_step as" by (simp add: run_of_def snoc)
    with snoc.IH snoc.prems(2) have "seen_ok a (remdups_adj (map visible as))" "\<not> up b \<longrightarrow> stage b = Serving"
      by (auto simp: snoc)
    with seen_ok_step [OF \<open>protocol_step a b\<close> this] remdups_adj_snoc_sees [of "map visible as" "visible b"] snoc
    show ?thesis by simp
  qed
qed (simp add: run_of_def)

text \<open>
  C7. Every run of a node, in every interleaving of its tasks with any number of calls of \<open>run\<close>
  and \<open>shutdown\<close>, is a run of the protocol, once the steps that show nothing are left out.
\<close>

theorem node_implements_protocol:
  assumes "run_of built (step oc) ss"
  shows "run_of unborn protocol_step (remdups_adj (map account_of ss))"
  by (rule observed.runs_simulated [OF assms])

text \<open>
  C8. When no shutdown is announced before \<open>run\<close> has returned, all that can be seen of a node in
  its whole life is \<open>Inactive\<close>, then \<open>Active\<close>, then states of the synchronisation, then
  \<open>ShuttingDown\<close>, then \<open>Inactive\<close>, or a beginning of that, however its tasks interleave and however
  often it is run and shut down.
\<close>

theorem observed_life_is_orderly:
  assumes "run_of built (step oc) ss"
    and "\<forall>s \<in> set ss. before_shutdown (shutdown_at s) \<or> run_done (run_at s)"
  shows "orderly_life (remdups_adj (map state ss))"
proof -
  let ?as = "remdups_adj (map account_of ss)"
  have "up a \<or> stage a = Serving" if "a \<in> set ?as" for a
    using that assms(2) by (auto simp: stage_of_Serving)
  from run_seen_ok [OF observed.runs_simulated [OF assms(1)] this]
  have "orderly_life (remdups_adj (map visible ?as))" by (rule seen_ok_orderly)
  moreover have "map visible (map account_of ss) = map state ss" by simp
  ultimately show ?thesis by (simp only: remdups_adj_map_remdups_adj)
qed

section \<open>A concrete run\<close>

fun move_states :: "bool \<Rightarrow> 'x move list \<Rightarrow> ('n, 'r, 'w, 'x) sys \<Rightarrow> ('n, 'r, 'w, 'x) sys list" where
  "move_states oc [] s = [s]"
| "move_states oc (m # ms) s = s # (case exec_move oc m s of None \<Rightarrow> [] | Some t \<Rightarrow> move_states oc ms t)"

lemma move_states_Cons: "\<exists>ss. move_states oc ms s = s # ss"
  by (cases ms) simp_all

lemma move_states_successively: "successively (step oc) (move_states oc ms s)"
proof (induction ms arbitrary: s)
  case (Cons m ms)
  show ?case
  proof (cases "exec_move oc m s")
    case (Some t)
    obtain ss where "move_states oc ms t = t # ss" using move_states_Cons by blast
    with Cons [of t] exec_move_step [OF Some] Some show ?thesis by simp
  qed simp
qed simp

lemma move_states_run: "built s \<Longrightarrow> run_of built (step oc) (move_states oc ms s)"
  using move_states_Cons [of oc ms s] move_states_successively [of oc ms s] by (auto simp: run_of_def)

lemma move_states_append:
  "exec_moves oc ms s = Some t \<Longrightarrow> move_states oc (ms @ ns) s = butlast (move_states oc ms s) @ move_states oc ns t"
proof (induction ms arbitrary: s)
  case (Cons m ms)
  then obtain u where u: "exec_move oc m s = Some u" "exec_moves oc ms u = Some t"
    by (auto split: option.splits simp del: exec_move.simps)
  obtain ss where "move_states oc ms u = u # ss" using move_states_Cons by blast
  with Cons.IH [OF u(2)] u(1) show ?case by (simp del: exec_move.simps)
qed simp

definition life_tips :: "(nat, unit, BlockHash) tips" where
  "life_tips = \<lparr>peer_info = Inr [()], best_block = Inr (100, 7), validation_index = Inr 100, filter_tip = Inr 100\<rparr>"

definition life_moves :: "nat move list" where
  "life_moves = [UpdateWakes, UpdatePolls life_tips, Sigint] @ shutdown_moves"

definition life_states :: "(nat, nat, unit, nat) sys list" where
  "life_states = move_states True ((start_moves @ [RunGoesOn 0]) @ life_moves) built_sys"

lemma life_states_run: "run_of built (step True) life_states"
  unfolding life_states_def by (rule move_states_run) (simp add: built_def built_sys_def)

definition seen_at :: "('n, 'r, 'w, 'x) sys \<Rightarrow> bool \<times> shutdown_pc \<times> nat \<times> State" where
  "seen_at s = (run_done (run_at s), shutdown_at s, flushes s, state s)"

lemma life_start:
  "map seen_at (butlast (move_states True (start_moves @ [RunGoesOn 0]) built_sys)) = replicate 5 (False, ShutdownNone, 0, Inactive) @
     replicate 2 (False, ShutdownSelect, 0, Inactive)"
  by (simp add: start_moves_def built_sys_def run_take_def run_return_def seen_at_def eval_nat_numeral)

lemma life_poll: "status_poll True life_tips Active = Some (Operational, True)"
  by (simp add: life_tips_def status_poll_def wire_ready_def send_next_state_def compute_next_state_Active)

lemma life_end:
  "map seen_at (move_states True life_moves running_sys) =
    (let at = (\<lambda>st pc. (True, pc, 0, st)) in
     [at Active ShutdownSelect, at Active ShutdownSelect, at Operational ShutdownSelect, at Operational SetKillSignal,
      at Operational SetShuttingDown] @ map (at ShuttingDown) [CancelToken, AwaitStopped, JoinNode, JoinUpdate, FlushChain] @
     [(True, SetInactive, 1, ShuttingDown), (True, ShutdownDone, 1, Inactive)])"
  by (simp add: life_moves_def shutdown_moves_def running_sys_def built_sys_def update_poll_def life_poll seen_at_def eval_nat_numeral)

lemma life_seen:
  "map seen_at life_states =
    replicate 5 (False, ShutdownNone, 0, Inactive) @ replicate 2 (False, ShutdownSelect, 0, Inactive) @
    map seen_at (move_states True life_moves running_sys)"
  unfolding life_states_def move_states_append [OF running_sys_moves] map_append life_start by simp

lemma life_states_fields:
  "map state life_states = map (snd \<circ> snd \<circ> snd) (map seen_at life_states)"
  "map account_of life_states = map (\<lambda>(d, pc, n, st). \<lparr>up = d, stage = stage_of pc, flushed = n, visible = st\<rparr>) (map seen_at life_states)"
  by (simp_all add: seen_at_def account_of_def)

theorem node_implements_protocol_witness:
  "run_of unborn protocol_step (remdups_adj (map account_of life_states)) \<and>
   last (remdups_adj (map account_of life_states)) = \<lparr>up = True, stage = Closed, flushed = 1, visible = Inactive\<rparr>"
proof -
  have "last (map account_of life_states) = \<lparr>up = True, stage = Closed, flushed = 1, visible = Inactive\<rparr>"
    unfolding life_states_fields(2) life_seen life_end Let_def by simp
  with node_implements_protocol [OF life_states_run] show ?thesis by simp
qed

theorem observed_life_is_orderly_witness:
  "orderly_life (remdups_adj (map state life_states)) \<and>
   remdups_adj (map state life_states) = [Inactive, Active, Operational, ShuttingDown, Inactive]"
proof -
  have "\<forall>x \<in> set (map seen_at life_states). before_shutdown (fst (snd x)) \<or> fst x"
    unfolding life_seen life_end Let_def by (simp add: before_shutdown_def)
  then have "\<forall>s \<in> set life_states. before_shutdown (shutdown_at s) \<or> run_done (run_at s)" by (simp add: seen_at_def)
  from observed_life_is_orderly [OF life_states_run this] show ?thesis
    unfolding life_states_fields(1) life_seen life_end Let_def by (simp add: eval_nat_numeral)
qed

end
