(* ===== verification/Paths.thy ===== *)
theory Paths
  imports Prelude
begin

text \<open>
  Paths of the standard library on Unix, as the logger and the builder use them: a path is
  whether it starts at the root, and its components, in
  which repeated separators and any \<open>.\<close> but a leading one do not count. \<open>push\<close> of an absolute
  path replaces.
\<close>

fun split_at_slash :: "string \<Rightarrow> string list" where
  "split_at_slash [] = [[]]"
| "split_at_slash (c # cs) =
     (if c = CHR ''/'' then [] # split_at_slash cs
      else case split_at_slash cs of [] \<Rightarrow> [[c]] | w # ws \<Rightarrow> (c # w) # ws)"

definition rooted :: "string \<Rightarrow> bool" where
  "rooted p \<longleftrightarrow> prefix ''/'' p"

definition components :: "string \<Rightarrow> bool \<times> string list" where
  "components p =
     (let parts = split_at_slash p;
          lead = (if \<not> rooted p \<and> hd parts = ''.'' then [''.''] else [])
      in (rooted p, lead @ filter (\<lambda>w. w \<noteq> [] \<and> w \<noteq> ''.'') parts))"

fun join_components :: "string list \<Rightarrow> string" where
  "join_components [] = []"
| "join_components [w] = w"
| "join_components (w # ws) = w @ CHR ''/'' # join_components ws"

definition render :: "bool \<times> string list \<Rightarrow> string" where
  "render rc = (if fst rc then [CHR ''/''] else []) @ join_components (snd rc)"

definition path_join :: "string \<Rightarrow> string \<Rightarrow> string" where
  "path_join a b =
     (if rooted b then b
      else if a = [] \<or> last a = CHR ''/'' then a @ b
      else a @ CHR ''/'' # b)"

definition parent :: "string \<Rightarrow> string option" where
  "parent p = (let (r, cs) = components p in if cs = [] then None else Some (render (r, butlast cs)))"

definition file_name :: "string \<Rightarrow> string option" where
  "file_name p =
     (let cs = snd (components p) in
      if cs = [] \<or> last cs = ''..'' \<or> last cs = ''.'' then None else Some (last cs))"

text \<open>Components that a path can have: no empty one, no separator, and a dot only in front.\<close>

definition plain_parts :: "string list \<Rightarrow> bool" where
  "plain_parts ws \<longleftrightarrow> (\<forall>w \<in> set ws. w \<noteq> [] \<and> CHR ''/'' \<notin> set w)"

definition proper :: "bool \<times> string list \<Rightarrow> bool" where
  "proper rc \<longleftrightarrow> plain_parts (snd rc) \<and> ''.'' \<notin> set (if fst rc then snd rc else tl (snd rc))"

lemma split_at_slash_not_Nil [simp]: "split_at_slash s \<noteq> []"
  by (induction s) (auto split: list.splits)

lemma split_at_slash_parts: "w \<in> set (split_at_slash s) \<Longrightarrow> CHR ''/'' \<notin> set w"
proof (induction s arbitrary: w)
  case (Cons c s)
  then show ?case by (cases "split_at_slash s") (auto split: if_splits)
qed simp

lemma split_at_slash_plain: "CHR ''/'' \<notin> set w \<Longrightarrow> split_at_slash w = [w]"
  by (induction w) auto

lemma split_at_slash_append:
  "CHR ''/'' \<notin> set w \<Longrightarrow> split_at_slash (w @ CHR ''/'' # s) = w # split_at_slash s"
  by (induction w) auto

lemma split_join:
  assumes "ws \<noteq> []" and "\<And>w. w \<in> set ws \<Longrightarrow> CHR ''/'' \<notin> set w"
  shows "split_at_slash (join_components ws) = ws"
  using assms
  by (induction ws rule: join_components.induct) (simp_all add: split_at_slash_plain split_at_slash_append)

lemma join_components_append:
  "ws \<noteq> [] \<Longrightarrow> join_components (ws @ [w]) = join_components ws @ CHR ''/'' # w"
  by (induction ws rule: join_components.induct) simp_all

lemma in_tl_in: "x \<in> set (tl xs) \<Longrightarrow> x \<in> set xs"
  by (cases xs) simp_all

lemma proper_components: "proper (components p)"
  using split_at_slash_parts [of _ p]
  by (auto simp: proper_def components_def Let_def plain_parts_def dest!: in_tl_in)

lemma join_last:
  assumes "ws \<noteq> []" and "plain_parts ws"
  shows "join_components ws \<noteq> [] \<and> last (join_components ws) \<noteq> CHR ''/'' \<and>
    hd (join_components ws) \<noteq> CHR ''/''"
proof -
  have hd: "join_components ws \<noteq> [] \<and> hd (join_components ws) \<noteq> CHR ''/''"
    using assms by (cases ws rule: join_components.cases)
      (auto simp: plain_parts_def hd_append dest: hd_in_set)
  have "last (join_components ws) \<noteq> CHR ''/''"
  proof (cases "butlast ws = []")
    case True
    with assms show ?thesis
      by (cases ws rule: join_components.cases) (auto simp: plain_parts_def dest: last_in_set)
  next
    case False
    with assms(1) join_components_append [OF this, of "last ws"]
    have "join_components ws = join_components (butlast ws) @ CHR ''/'' # last ws" by simp
    moreover have "last ws \<noteq> []" "CHR ''/'' \<notin> set (last ws)"
      using assms by (auto simp: plain_parts_def)
    ultimately show ?thesis by (auto dest: last_in_set)
  qed
  with hd show ?thesis by blast
qed

lemma components_render:
  assumes "proper rc"
  shows "components (render rc) = rc"
proof -
  obtain r cs where rc: "rc = (r, cs)" by force
  have parts: "w \<noteq> [] \<and> CHR ''/'' \<notin> set w" if "w \<in> set cs" for w
    using assms that by (auto simp: rc proper_def plain_parts_def)
  show ?thesis
  proof (cases "cs = []")
    case True
    then show ?thesis by (simp add: rc render_def components_def rooted_def)
  next
    case False
    have sj: "split_at_slash (join_components cs) = cs" using split_join [OF False] parts by blast
    show ?thesis
    proof (cases r)
      case True
      have "filter (\<lambda>w. w \<noteq> [] \<and> w \<noteq> ''.'') cs = cs"
        using assms parts True by (auto simp: rc proper_def filter_id_conv)
      with True show ?thesis by (simp add: rc render_def components_def rooted_def sj)
    next
      case False
      obtain w ws where cs: "cs = w # ws" using \<open>cs \<noteq> []\<close> by (cases cs) auto
      have "filter (\<lambda>w. w \<noteq> [] \<and> w \<noteq> ''.'') ws = ws"
        using assms parts False by (auto simp: rc proper_def filter_id_conv cs)
      moreover have "\<not> rooted (join_components cs)"
        using join_last [of cs] \<open>cs \<noteq> []\<close> assms
        by (cases "join_components cs") (auto simp: rooted_def rc proper_def)
      ultimately show ?thesis
        using False parts by (auto simp: rc render_def components_def sj [unfolded cs] cs)
    qed
  qed
qed

lemma path_join_render:
  assumes "plain_parts (cs @ [n])"
  shows "path_join (render (r, cs)) n = render (r, cs @ [n])"
proof -
  have n: "\<not> rooted n" using assms by (cases n) (auto simp: rooted_def plain_parts_def)
  show ?thesis
  proof (cases "cs = []")
    case True
    with n show ?thesis by (cases r) (simp_all add: path_join_def render_def)
  next
    case False
    have "plain_parts cs" using assms by (simp add: plain_parts_def)
    from join_last [OF False this] n False show ?thesis
      by (auto simp: path_join_def render_def join_components_append)
  qed
qed

text \<open>A path is its parent joined with its file name, up to the spelling.\<close>

lemma parent_join_file_name:
  assumes "parent f = Some p" and "file_name f = Some n"
  shows "components (path_join p n) = components f"
proof -
  obtain r cs where rc: "components f = (r, cs)" by force
  from assms rc have cs: "cs \<noteq> []" "p = render (r, butlast cs)" "n = last cs"
    by (auto simp: parent_def file_name_def split: if_splits)
  have pr: "proper (r, cs)" using proper_components [of f] rc by simp
  have "path_join p n = render (r, cs)"
    using path_join_render [of "butlast cs" "last cs" r] cs pr by (simp add: proper_def)
  with components_render [OF pr] rc show ?thesis by simp
qed

end
