(* ===== verification/Logger.thy ===== *)
theory Logger
  imports NodeErrors Paths
begin

text \<open>
  The logger of \<open>src/src/logger.rs\<close>: how a log line is formatted, with and without the colours
  of a terminal, and how the global subscriber is set up. The subscriber library and the
  operating system are parameters; paths are those of the standard library on Unix.
\<close>

section \<open>Levels\<close>

datatype Level = ERROR | WARN | INFO | DEBUG | TRACE

fun verbosity :: "Level \<Rightarrow> nat" where
  "verbosity ERROR = 1" | "verbosity WARN = 2" | "verbosity INFO = 3"
| "verbosity DEBUG = 4" | "verbosity TRACE = 5"

lemma verbosity_inject [simp]: "verbosity a = verbosity b \<longleftrightarrow> a = b"
  by (cases a; cases b) simp_all

text \<open>The library's order: the more verbose level is the greater one.\<close>

instantiation Level :: linorder
begin

definition less_eq_Level :: "Level \<Rightarrow> Level \<Rightarrow> bool" where
  "a \<le> b \<longleftrightarrow> verbosity a \<le> verbosity b"

definition less_Level :: "Level \<Rightarrow> Level \<Rightarrow> bool" where
  "a < b \<longleftrightarrow> verbosity a < verbosity b"

instance
  by (intro_classes) (auto simp: less_eq_Level_def less_Level_def dest: antisym)

end

fun display_Level :: "Level \<Rightarrow> string" where
  "display_Level ERROR = ''ERROR''" | "display_Level WARN = ''WARN''"
| "display_Level INFO = ''INFO''" | "display_Level DEBUG = ''DEBUG''"
| "display_Level TRACE = ''TRACE''"

text \<open>What tasks hand to the logging macros, in order.\<close>

type_synonym log = "(Level \<times> string) list"

text \<open>\<open>{:>5}\<close>: padded on the left to five characters.\<close>

definition pad5 :: "string \<Rightarrow> string" where
  "pad5 s = replicate (5 - length s) (CHR '' '') @ s"

section \<open>A log line\<close>

definition ESC :: char where
  "ESC = CHR 0x1B"

definition ANSI_DIM :: string where "ANSI_DIM = ESC # ''[2m''"
definition ANSI_RESET :: string where "ANSI_RESET = ESC # ''[0m''"
definition COLORED_ERROR :: string where "COLORED_ERROR = ESC # ''[0;31mERROR'' @ ESC # ''[0m''"
definition COLORED_WARN :: string where "COLORED_WARN = ESC # ''[0;33m WARN'' @ ESC # ''[0m''"
definition COLORED_INFO :: string where "COLORED_INFO = ESC # ''[0;32m INFO'' @ ESC # ''[0m''"
definition COLORED_DEBUG :: string where "COLORED_DEBUG = ESC # ''[0;34mDEBUG'' @ ESC # ''[0m''"
definition COLORED_TRACE :: string where "COLORED_TRACE = ESC # ''[0;35mTRACE'' @ ESC # ''[0m''"

lemmas ansi_defs = ANSI_DIM_def ANSI_RESET_def COLORED_ERROR_def COLORED_WARN_def COLORED_INFO_def
  COLORED_DEBUG_def COLORED_TRACE_def

text \<open>The time formats: to the second, or with milliseconds.\<close>

datatype time_format = Seconds | Milliseconds

definition formatter_default :: time_format where
  "formatter_default = Seconds"

definition formatter_new :: "Level \<Rightarrow> time_format" where
  "formatter_new level = (if level \<ge> DEBUG then Milliseconds else Seconds)"

definition short_target :: "string \<Rightarrow> string" where
  "short_target target =
     (if prefix ''floresta_chain'' target then ''floresta::chain''
      else if prefix ''floresta_compact_filters'' target then ''floresta::compact_filters''
      else if prefix ''floresta_mempool'' target then ''floresta::mempool''
      else if prefix ''floresta_wire'' target then ''floresta::wire''
      else target)"

text \<open>
  A formatter of the library writes some text and then may fail, with the format error that
  carries nothing. The writer is the text written so far.
\<close>

record formatted =
  written :: string
  fmt_ok :: bool

definition write_str :: "string \<Rightarrow> (string, unit, unit) comp" where
  "write_str t = modifyE (\<lambda>w. w @ t)"

definition run_formatter :: "formatted \<Rightarrow> (string, unit, unit) comp" where
  "run_formatter f =
     bindE (write_str (written f)) (\<lambda>_. if fmt_ok f then returnE () else throwE ())"

record event_data =
  event_level :: Level
  event_target :: string
  event_time :: formatted
  event_fields :: formatted

fun colored_level :: "Level \<Rightarrow> string" where
  "colored_level ERROR = COLORED_ERROR" | "colored_level WARN = COLORED_WARN"
| "colored_level INFO = COLORED_INFO" | "colored_level DEBUG = COLORED_DEBUG"
| "colored_level TRACE = COLORED_TRACE"

definition format_event :: "bool \<Rightarrow> bool \<Rightarrow> event_data \<Rightarrow> (string, unit, unit) comp" where
  "format_event ansi debug_enabled ev =
     bindE (if ansi then write_str ANSI_DIM else returnE ()) (\<lambda>_.
     bindE (run_formatter (event_time ev)) (\<lambda>_.
     bindE (if ansi then write_str (ANSI_RESET @ '' '') else write_str '' '') (\<lambda>_.
     bindE (if ansi then write_str (colored_level (event_level ev) @ '' '')
            else write_str (pad5 (display_Level (event_level ev)) @ '' '')) (\<lambda>_.
     let target = (if debug_enabled then event_target ev else short_target (event_target ev)) in
     bindE (if ansi then write_str (ANSI_DIM @ target @ ANSI_RESET @ '': '') else write_str (target @ '': '')) (\<lambda>_.
     bindE (run_formatter (event_fields ev)) (\<lambda>_.
     write_str (CHR 0x0A # [])))))))"

text \<open>What a terminal shows: the escape sequences, from ESC to the next \<open>m\<close>, are not shown.\<close>

fun strip_from :: "bool \<Rightarrow> string \<Rightarrow> string" where
  "strip_from inside [] = []"
| "strip_from True (c # cs) = strip_from (c \<noteq> CHR ''m'') cs"
| "strip_from False (c # cs) = (if c = ESC then strip_from True cs else c # strip_from False cs)"

definition strip_ansi :: "string \<Rightarrow> string" where
  "strip_ansi s = strip_from False s"

lemma strip_plain [simp]: "ESC \<notin> set xs \<Longrightarrow> strip_ansi (xs @ ys) = xs @ strip_ansi ys"
  by (induction xs) (auto simp: strip_ansi_def)

lemma strip_Nil [simp]: "strip_ansi [] = []"
  by (simp add: strip_ansi_def)

lemma strip_Cons [simp]: "c \<noteq> ESC \<Longrightarrow> strip_ansi (c # ys) = c # strip_ansi ys"
  by (simp add: strip_ansi_def)

lemma strip_codes [simp]:
  "strip_ansi (ANSI_DIM @ ys) = strip_ansi ys" "strip_ansi (ANSI_RESET @ ys) = strip_ansi ys"
  by (simp_all add: strip_ansi_def ansi_defs)

lemma strip_level [simp]:
  "strip_ansi (colored_level l @ ys) = pad5 (display_Level l) @ strip_ansi ys"
  by (cases l) (simp_all add: strip_ansi_def ansi_defs pad5_def ESC_def numeral_eq_Suc)

lemma short_target_no_ESC: "ESC \<notin> set t \<Longrightarrow> ESC \<notin> set (short_target t)"
  by (auto simp: short_target_def ESC_def)

text \<open>
  A line in colour shows, on a terminal, exactly the line that is written to a file, also
  where a formatter fails half way, if the parts of the event carry no escape sequence.
\<close>

theorem colored_line_shows_plain_line:
  assumes "ESC \<notin> set (event_target ev)" and "ESC \<notin> set (written (event_time ev))"
    and "ESC \<notin> set (written (event_fields ev))"
  shows "fst (format_event True d ev []) = fst (format_event False d ev []) \<and>
    strip_ansi (snd (format_event True d ev [])) = snd (format_event False d ev [])"
proof -
  have "ESC \<notin> set (if d then event_target ev else short_target (event_target ev))"
    using assms(1) short_target_no_ESC by simp
  moreover have "strip_ansi xs = xs" if "ESC \<notin> set xs" for xs
    using strip_plain [OF that, of "[]"] by simp
  ultimately show ?thesis
    using assms(2,3)
    by (simp add: format_event_def bindE_def run_formatter_def write_str_def Let_def ESC_def)
qed

definition sample_event :: event_data where
  "sample_event = \<lparr>event_level = INFO, event_target = ''floresta_wire::p2p_wire::node'',
     event_time = \<lparr>written = ''12:00:00'', fmt_ok = True\<rparr>,
     event_fields = \<lparr>written = ''new block'', fmt_ok = True\<rparr>\<rparr>"

theorem colored_line_shows_plain_line_witness:
  "strip_ansi (snd (format_event True False sample_event [])) =
     ''12:00:00  INFO floresta::wire: new block'' @ [CHR 0x0A]"
proof -
  have p: "snd (format_event False False sample_event []) =
      ''12:00:00  INFO floresta::wire: new block'' @ [CHR 0x0A]"
    by (simp add: format_event_def bindE_def run_formatter_def write_str_def Let_def sample_event_def
        short_target_def pad5_def)
  have "ESC \<notin> set (event_target sample_event)" "ESC \<notin> set (written (event_time sample_event))"
    "ESC \<notin> set (written (event_fields sample_event))"
    by (simp_all add: sample_event_def ESC_def)
  from colored_line_shows_plain_line [OF this, of False] p show ?thesis by simp
qed

lemma short_target_idem: "short_target (short_target t) = short_target t"
  by (auto simp: short_target_def)

section \<open>Setting the subscriber up\<close>

definition LOG_FILE :: string where
  "LOG_FILE = ''debug.log''"

record Logger =
  log_level :: Level
  log_to_stdout :: bool
  log_file :: "string option"

definition logger_default :: Logger where
  "logger_default = \<lparr>log_level = INFO, log_to_stdout = True, log_file = None\<rparr>"

text \<open>A layer: whether it writes colours and its time format. The file layer has the directory and
  the name of the file it appends to.\<close>

record subscriber =
  filter_spec :: string
  stdout_layer :: "(bool \<times> time_format) option"
  file_layer :: "(string \<times> string \<times> bool \<times> time_format) option"

text \<open>
  The process: its file system \<open>'f\<close> and its global subscriber, which is set at most once. The
  operations of the file system are \<open>create_dir_all\<close> and the opening for append.
\<close>

record 'f process =
  files :: 'f
  global_subscriber :: "subscriber option"

record ('f, 'x) os =
  create_dir_all :: "string \<Rightarrow> 'f \<Rightarrow> ('x + unit) \<times> 'f"
  open_append :: "string \<Rightarrow> 'f \<Rightarrow> ('x + unit) \<times> 'f"

definition on_files ::
  "('x \<Rightarrow> 'e) \<Rightarrow> ('f \<Rightarrow> ('x + 'a) \<times> 'f) \<Rightarrow> ('f process, 'e, 'a) comp" where
  "on_files err f = (\<lambda>w. let (r, fs) = f (files w) in (map_err err r, w\<lparr>files := fs\<rparr>))"

definition logfile_layer ::
  "('f, 'x) os \<Rightarrow> Level \<Rightarrow> string \<Rightarrow>
   ('f process, 'x BuilderError, string \<times> string \<times> bool \<times> time_format) comp" where
  "logfile_layer os level file =
     bindE (case parent file of
              Some p \<Rightarrow> on_files LoggerSetup (create_dir_all os p)
            | None \<Rightarrow> returnE ()) (\<lambda>_.
     bindE (on_files LoggerSetup (open_append os file)) (\<lambda>_.
     returnE (unwrap_or ''.'' (parent file), unwrap_or LOG_FILE (file_name file), False,
       formatter_new level)))"

text \<open>
  \<open>rust_log\<close> is the filter of the environment variable, if it has a valid one, and \<open>tty\<close> whether
  the standard output is a terminal. The result says whether a guard was returned.
\<close>

definition logger_init ::
  "('f, 'x) os \<Rightarrow> string option \<Rightarrow> bool \<Rightarrow> Logger \<Rightarrow> ('f process, 'x BuilderError, bool) comp" where
  "logger_init os rust_log tty lg =
     (let stdout = (if log_to_stdout lg then Some (tty, formatter_new (log_level lg)) else None) in
      bindE (case log_file lg of
               None \<Rightarrow> returnE None
             | Some f \<Rightarrow> bindE (logfile_layer os (log_level lg) f) (\<lambda>l. returnE (Some l))) (\<lambda>logfile.
      bindE (getE (\<lambda>w. if global_subscriber w = None then Inr () else Inl LoggerAlreadySetup)) (\<lambda>_.
      bindE (modifyE (\<lambda>w. w\<lparr>global_subscriber := Some
        \<lparr>filter_spec = unwrap_or (display_Level (log_level lg)) rust_log, stdout_layer = stdout,
         file_layer = logfile\<rparr>\<rparr>)) (\<lambda>_.
      returnE (case logfile of None \<Rightarrow> False | Some _ \<Rightarrow> True)))))"

lemma on_files_subscriber: "on_files err f w = (r, w') \<Longrightarrow> global_subscriber w' = global_subscriber w"
  by (auto simp: on_files_def Let_def split: prod.splits)

lemma logfile_layer_subscriber:
  "logfile_layer os level f w = (r, w') \<Longrightarrow> global_subscriber w' = global_subscriber w"
  by (auto simp: logfile_layer_def bindE_def split: option.splits prod.splits sum.splits
      dest!: on_files_subscriber)

lemma logfile_layer_error: "logfile_layer os level f w = (Inl e, w') \<Longrightarrow> \<exists>x. e = LoggerSetup x"
  by (auto simp: logfile_layer_def bindE_def on_files_def Let_def
      split: option.splits prod.splits sum.splits)

lemma logger_init_cases:
  assumes "logger_init os rust_log tty lg w = (r, w')"
  shows "case r of
      Inr guard \<Rightarrow> global_subscriber w = None \<and> global_subscriber w' \<noteq> None \<and> guard = (log_file lg \<noteq> None)
    | Inl e \<Rightarrow> global_subscriber w' = global_subscriber w \<and>
        (e = LoggerAlreadySetup \<and> global_subscriber w \<noteq> None \<or>
         (\<exists>x. e = LoggerSetup x) \<and> log_file lg \<noteq> None)"
proof (cases "log_file lg")
  case None
  with assms show ?thesis by (auto simp: logger_init_def bindE_def Let_def split: if_splits)
next
  case (Some f)
  obtain q w1 where l: "logfile_layer os (log_level lg) f w = (q, w1)" by force
  note sub = logfile_layer_subscriber [OF l]
  show ?thesis
  proof (cases q)
    case (Inl e)
    with assms Some l sub logfile_layer_error [of os "log_level lg" f w e w1] show ?thesis
      by (auto simp: logger_init_def bindE_def)
  next
    case (Inr x)
    with assms Some l sub show ?thesis
      by (auto simp: logger_init_def bindE_def split: if_splits)
  qed
qed

text \<open>
  Setting up succeeds at most once in a process: it returns \<open>Ok\<close> only where no subscriber
  was set, with a guard exactly if a log file is configured; it never replaces a subscriber;
  and its errors are those of the log file, or that a subscriber is already set.
\<close>

theorem logger_init_once:
  assumes "logger_init os rust_log tty lg w = (r, w')"
  shows "case r of
      Inr guard \<Rightarrow> global_subscriber w = None \<and> global_subscriber w' \<noteq> None \<and> guard = (log_file lg \<noteq> None)
    | Inl e \<Rightarrow> global_subscriber w' = global_subscriber w \<and>
        (e = LoggerAlreadySetup \<and> global_subscriber w \<noteq> None \<or>
         (\<exists>x. e = LoggerSetup x) \<and> log_file lg \<noteq> None)"
  by (rule logger_init_cases [OF assms])


definition sample_os :: "(string list, nat) os" where
  "sample_os = \<lparr>create_dir_all = (\<lambda>p fs. (Inr (), p # fs)), open_append = (\<lambda>p fs. (Inr (), p # fs))\<rparr>"

definition sample_process :: "string list process" where
  "sample_process = \<lparr>files = [], global_subscriber = None\<rparr>"

definition sample_logger :: Logger where
  "sample_logger = logger_default\<lparr>log_file := Some ''./data/x.log''\<rparr>"

lemma sample_logger_init:
  "fst (logger_init sample_os None True sample_logger sample_process) = Inr True \<and>
   files (snd (logger_init sample_os None True sample_logger sample_process)) = [''./data/x.log'', ''./data'']"
  by (simp add: logger_init_def sample_logger_def logger_default_def logfile_layer_def bindE_def Let_def
      on_files_def sample_os_def sample_process_def parent_def components_def rooted_def render_def
      file_name_def)

theorem logger_init_once_witness:
  "global_subscriber (snd (logger_init sample_os None True sample_logger sample_process)) \<noteq> None"
  using logger_init_once [OF prod.collapse [symmetric], of sample_os None True sample_logger sample_process]
    sample_logger_init by simp


end
