(* ===== verification/Polling.thy ===== *)
theory Polling
  imports Lifecycle Logger
begin

text \<open>
  The polling task of \<open>Node::run\<close> (\<open>src/src/node/mod.rs\<close>) in one piece: its loop over a
  \<open>select!\<close> of the cancellation and of a sleep, what a poll logs, and the states it sends. Theory
  \<open>Lifecycle\<close> has the same loop as steps that interleave with the other tasks.
\<close>

text \<open>In milliseconds.\<close>

definition STATUS_UPDATE_POLL_PERIOD :: nat where
  "STATUS_UPDATE_POLL_PERIOD = 500"

text \<open>What a poll logs, with the display of the libraries' errors. Only the first failure is reached.\<close>

definition poll_lines :: "('x \<Rightarrow> string) \<Rightarrow> ('x, 'p, 'h) tips \<Rightarrow> log" where
  "poll_lines show_error o1 =
     (case best_block o1 of
        Inl e \<Rightarrow> [(ERROR, ''Failed to compute FSM's next state (failed to get chain tip): '' @ show_error e)]
      | Inr _ \<Rightarrow>
          (case validation_index o1 of
             Inl e \<Rightarrow> [(ERROR, ''Failed to compute FSM's next state (failed to get node tip): '' @ show_error e)]
           | Inr _ \<Rightarrow>
               (case filter_tip o1 of
                  Inl e \<Rightarrow> [(ERROR, ''Failed to compute FSM's next state (failed to get filter tip): '' @ show_error e)]
                | Inr _ \<Rightarrow> [])))"

text \<open>A round of the loop: the branch of the \<open>select!\<close>, with what the poll reads.\<close>

datatype ('x, 'p, 'h) round = TokenCancelled | Slept "('x, 'p, 'h) tips"

text \<open>
  The loop through some rounds: the lines logged, the states that woke the receivers, the time
  slept, the last state, and where the task is.
\<close>

fun status_task ::
  "bool \<Rightarrow> ('x \<Rightarrow> string) \<Rightarrow> ('x, 'p, 'h) round list \<Rightarrow> State \<Rightarrow> log \<times> State list \<times> nat \<times> State \<times> update_pc" where
  "status_task oc show_error [] st = ([], [], 0, st, UpdateSelect)"
| "status_task oc show_error (TokenCancelled # rs) st = ([], [], 0, st, UpdateDone)"
| "status_task oc show_error (Slept o1 # rs) st =
     (case status_poll oc o1 st of
        None \<Rightarrow> (poll_lines show_error o1, [], STATUS_UPDATE_POLL_PERIOD, st, UpdatePanicked)
      | Some (st1, modified) \<Rightarrow>
          (case status_task oc show_error rs st1 of (l, sent, slept, st2, pc) \<Rightarrow>
            (poll_lines show_error o1 @ l, (if modified then [st1] else []) @ sent,
             STATUS_UPDATE_POLL_PERIOD + slept, st2, pc)))"

definition tips_known :: "('x, 'p, 'h) tips \<Rightarrow> bool" where
  "tips_known o1 \<longleftrightarrow> (\<exists>c v f. best_block o1 = Inr c \<and> validation_index o1 = Inr v \<and> filter_tip o1 = Inr f)"

text \<open>A poll that does not know the three tips logs one error and leaves the state alone.\<close>

lemma poll_lines_length: "length (poll_lines show_error o1) = (if tips_known o1 then 0 else 1)"
  by (auto simp: poll_lines_def tips_known_def split: sum.splits)

lemma unknown_tips_poll: "\<not> tips_known o1 \<Longrightarrow> status_poll oc o1 st = Some (st, False)"
  by (auto simp: status_poll_def tips_known_def split: sum.splits)

text \<open>The rounds that are gone through, up to the cancellation or to an overflow.\<close>

fun rounds_run :: "bool \<Rightarrow> ('x, 'p, 'h) round list \<Rightarrow> State \<Rightarrow> ('x, 'p, 'h) tips list" where
  "rounds_run oc [] st = []"
| "rounds_run oc (TokenCancelled # rs) st = []"
| "rounds_run oc (Slept o1 # rs) st =
     o1 # (case status_poll oc o1 st of None \<Rightarrow> [] | Some (st1, _) \<Rightarrow> rounds_run oc rs st1)"

lemma status_task_account:
  "status_task oc show_error rs st = (l, sent, slept, st', pc) \<Longrightarrow>
    distinct_adj (st # sent) \<and> last (st # sent) = st' \<and>
    length l = length (filter (\<lambda>o1. \<not> tips_known o1) (rounds_run oc rs st)) \<and>
    slept = STATUS_UPDATE_POLL_PERIOD * length (rounds_run oc rs st)"
proof (induction rs arbitrary: st l sent slept)
  case (Cons r rs)
  show ?case
  proof (cases r)
    case (Slept o1)
    show ?thesis
    proof (cases "status_poll oc o1 st")
      case None
      with unknown_tips_poll [of o1 oc st] have "tips_known o1" by auto
      with None Cons.prems Slept poll_lines_length [of show_error o1] show ?thesis by auto
    next
      case (Some p)
      obtain st1 m where p: "p = (st1, m)" by force
      obtain l2 sent2 slept2 where rest: "status_task oc show_error rs st1 = (l2, sent2, slept2, st', pc)"
        and eqs: "l = poll_lines show_error o1 @ l2" "sent = (if m then [st1] else []) @ sent2"
          "slept = STATUS_UPDATE_POLL_PERIOD + slept2"
        using Cons.prems Slept Some p by (auto split: prod.splits)
      from status_poll_modified [OF Some [unfolded p]] Cons.IH [OF rest] show ?thesis
        using Slept Some p eqs by (auto simp: poll_lines_length)
    qed
  qed (use Cons.prems in auto)
qed simp

lemma status_task_steps:
  fixes s :: "('n, 'r, 'w, 'x) sys" and rs :: "('x, unit, BlockHash) round list"
  assumes "status_task oc show_error rs (state s) = (l, sent, slept, st, pc)" and "update_at s = UpdateSelect"
    and "TokenCancelled \<in> set rs \<longrightarrow> cancellation_token s"
  shows "steps oc s (s\<lparr>state := st, update_at := pc\<rparr>)"
  using assms
proof (induction rs arbitrary: s l sent slept)
  case Nil
  then have "s\<lparr>state := st, update_at := pc\<rparr> = s" by (cases s) auto
  then show ?case by (simp add: steps_refl)
next
  case (Cons r rs)
  show ?case
  proof (cases r)
    case TokenCancelled
    with Cons.prems have "step oc s (s\<lparr>update_at := UpdateDone\<rparr>)" by (intro step.update_cancelled) auto
    moreover have "s\<lparr>state := st, update_at := pc\<rparr> = s\<lparr>update_at := UpdateDone\<rparr>"
      using Cons.prems(1) TokenCancelled by (cases s) auto
    ultimately show ?thesis by (metis steps_refl steps_trans)
  next
    case (Slept o1)
    let ?s = "s\<lparr>update_at := UpdatePoll\<rparr>"
    have wake: "step oc s ?s" by (rule step.update_wakes [OF Cons.prems(2)])
    have poll: "step oc ?s (update_poll oc o1 ?s)" by (rule step.update_polls) simp
    show ?thesis
    proof (cases "status_poll oc o1 (state s)")
      case None
      with Cons.prems(1) Slept have "update_poll oc o1 ?s = s\<lparr>state := st, update_at := pc\<rparr>"
        by (cases s) (auto simp: update_poll_def)
      with wake poll show ?thesis by (metis steps_refl steps_trans)
    next
      case (Some p)
      obtain st1 m where p: "p = (st1, m)" by force
      let ?t = "s\<lparr>state := st1, update_at := UpdateSelect\<rparr>"
      have t: "update_poll oc o1 ?s = ?t" using Some p by (simp add: update_poll_def)
      obtain l2 sent2 slept2 where "status_task oc show_error rs (state ?t) = (l2, sent2, slept2, st, pc)"
        using Cons.prems(1) Slept Some p by (auto split: prod.splits)
      from Cons.IH [OF this] Cons.prems(3) have "steps oc ?t (s\<lparr>state := st, update_at := pc\<rparr>)" by simp
      with wake poll t show ?thesis by (metis steps_trans)
    qed
  qed
qed

text \<open>
  C21. The polling task in one piece and the steps of the interleaving model agree: left alone,
  the steps can bring the node to the state and the place where the loop ends. On the way each send
  wakes the receivers with a state that differs from the one before, the last one is the node's
  state, exactly the polls that could not read a tip log an error, and every poll comes after one
  period of sleep.
\<close>

theorem status_task_is_steps:
  fixes s :: "('n, 'r, 'w, 'x) sys" and rs :: "('x, unit, BlockHash) round list"
  assumes "status_task oc show_error rs (state s) = (l, sent, slept, st, pc)" and "update_at s = UpdateSelect"
    and "TokenCancelled \<in> set rs \<longrightarrow> cancellation_token s"
  shows "steps oc s (s\<lparr>state := st, update_at := pc\<rparr>) \<and> distinct_adj (state s # sent) \<and> last (state s # sent) = st \<and>
    length l = length (filter (\<lambda>o1. \<not> tips_known o1) (rounds_run oc rs (state s))) \<and>
    slept = STATUS_UPDATE_POLL_PERIOD * length (rounds_run oc rs (state s))"
  using status_task_steps [OF assms] status_task_account [OF assms(1)] by blast

definition unreadable_tips :: "(nat, unit, BlockHash) tips" where
  "unreadable_tips = \<lparr>peer_info = Inl 0, best_block = Inr (100, 7), validation_index = Inl 4, filter_tip = Inr 100\<rparr>"

definition readable_tips :: "(nat, unit, BlockHash) tips" where
  "readable_tips = \<lparr>peer_info = Inr [()], best_block = Inr (100, 7), validation_index = Inr 100, filter_tip = Inr 100\<rparr>"

theorem status_task_is_steps_witness:
  "steps True running_sys (running_sys\<lparr>state := Operational\<rparr>)"
proof -
  have same: "running_sys\<lparr>state := Operational, update_at := UpdateSelect\<rparr> = running_sys\<lparr>state := Operational\<rparr>"
    and at: "state running_sys = Active" "update_at running_sys = UpdateSelect"
    by (simp_all add: running_sys_def built_sys_def)
  have "status_task True dec [Slept unreadable_tips, Slept readable_tips] (state running_sys) =
      (poll_lines dec unreadable_tips, [Operational], 1000, Operational, UpdateSelect)"
    by (simp add: at status_poll_def wire_ready_def send_next_state_def compute_next_state_Active unreadable_tips_def
        readable_tips_def poll_lines_def STATUS_UPDATE_POLL_PERIOD_def)
  from status_task_is_steps [OF this at(2)]
  have "steps True running_sys (running_sys\<lparr>state := Operational, update_at := UpdateSelect\<rparr>)" by simp
  then show ?thesis unfolding same .
qed

end
