(* ===== verification/Shutdown.thy ===== *)
theory Shutdown
  imports Lifecycle Logger
begin

text \<open>
  The shutdown task of \<open>Node::run\<close> (\<open>src/src/node/mod.rs\<close>) from its \<open>select!\<close> to its end, with
  what it waits for and what it reports: \<open>await_with_timeout\<close> and \<open>join_with_timeout\<close>, and the
  lines it logs. Theory \<open>Lifecycle\<close> has the same statements as steps that interleave with the
  other tasks; here they run in one piece, on every combination of the outcomes.
\<close>

definition SHUTDOWN_TIMEOUT :: nat where
  "SHUTDOWN_TIMEOUT = 10"

text \<open>The runtime's \<open>timeout\<close>: what is awaited ends in time, or not.\<close>

datatype 'a timed = InTime 'a | TimedOut

definition await_with_timeout :: "(unit + unit) timed \<Rightarrow> nat \<Rightarrow> log" where
  "await_with_timeout rx secs =
     (case rx of
        InTime (Inr _) \<Rightarrow> []
      | InTime (Inl _) \<Rightarrow> [(WARN, ''Shutdown channel closed without sending'')]
      | TimedOut \<Rightarrow> [(ERROR, ''Shutdown channel timed out after '' @ dec secs @ '' seconds'')])"

definition join_with_timeout :: "('j \<Rightarrow> string) \<Rightarrow> ('j + unit) timed \<Rightarrow> nat \<Rightarrow> log" where
  "join_with_timeout debug task secs =
     (case task of
        InTime (Inr _) \<Rightarrow> []
      | InTime (Inl e) \<Rightarrow> [(ERROR, ''Node task failed during shutdown: '' @ debug e)]
      | TimedOut \<Rightarrow> [(WARN, ''Node task join timed out after '' @ dec secs @ '' seconds'')])"

text \<open>
  Which branch of the \<open>select!\<close> was taken, and how each thing awaited ended. The texts of the
  errors are those of the libraries.
\<close>

datatype 'i cause = SigintBranch "'i + unit" | CancelledBranch

record ('i, 'j, 'x, 'w) shutdown_world =
  shutdown_cause :: "'i cause"
  node_stopped :: "(unit + unit) timed"
  node_joined :: "('j + unit) timed"
  update_joined :: "('j + unit) timed"
  chain_flush :: "'w \<Rightarrow> ('x + unit) \<times> 'w"
  io_text :: "'i \<Rightarrow> string"
  join_debug :: "'j \<Rightarrow> string"
  flush_text :: "'x \<Rightarrow> string"

definition select_reason :: "('i, 'j, 'x, 'w) shutdown_world \<Rightarrow> log \<times> string" where
  "select_reason o1 =
     (case shutdown_cause o1 of
        SigintBranch result \<Rightarrow>
          ((case result of Inl e \<Rightarrow> [(ERROR, ''Failed to listen for SIGINT: '' @ io_text o1 e)] | Inr _ \<Rightarrow> []),
           ''SIGINT'')
      | CancelledBranch \<Rightarrow> ([], ''SHUTDOWN request''))"

definition run_shutdown_task :: "('i, 'j, 'x, 'w) shutdown_world \<Rightarrow> ('n, 'r, 'w) Node \<Rightarrow> log \<times> ('n, 'r, 'w) Node" where
  "run_shutdown_task o1 n =
     (let (l0, reason) = select_reason o1;
          l1 = [(INFO, ''Received '' @ reason @ '', shutting the node down...'')];
          n1 = n\<lparr>kill_signal := True\<rparr>;
          n2 = n1\<lparr>state := ShuttingDown\<rparr>;
          n3 = n2\<lparr>cancellation_token := True\<rparr>;
          l2 = await_with_timeout (node_stopped o1) SHUTDOWN_TIMEOUT;
          l3 = join_with_timeout (join_debug o1) (node_joined o1) SHUTDOWN_TIMEOUT;
          l4 = join_with_timeout (join_debug o1) (update_joined o1) SHUTDOWN_TIMEOUT;
          (r, w) = chain_flush o1 (backend n3);
          n4 = n3\<lparr>backend := w\<rparr>;
          l5 = (case r of Inl e \<Rightarrow> [(ERROR, ''Failed to flush chain state during shutdown: '' @ flush_text o1 e)]
                | Inr _ \<Rightarrow> []);
          n5 = n4\<lparr>state := Inactive\<rparr>;
          l6 = [(INFO, ''Node shutdown complete'')]
      in (l0 @ l1 @ l2 @ l3 @ l4 @ l5 @ l6, n5))"

section \<open>What is reported\<close>

definition timed_ok :: "('e + unit) timed \<Rightarrow> bool" where
  "timed_ok t = (t = InTime (Inr ()))"

definition complaints :: "log \<Rightarrow> log" where
  "complaints l = filter (\<lambda>(lv, _). lv \<le> WARN) l"

lemma complaints_simps [simp]:
  "complaints [] = []" "complaints (xs @ ys) = complaints xs @ complaints ys"
  "complaints ((INFO, m) # xs) = complaints xs"
  "complaints ((WARN, m) # xs) = (WARN, m) # complaints xs" "complaints ((ERROR, m) # xs) = (ERROR, m) # complaints xs"
  by (simp_all add: complaints_def less_eq_Level_def)

lemma await_complaints: "complaints (await_with_timeout t k) = await_with_timeout t k"
  "length (await_with_timeout t k) = (if timed_ok t then 0 else 1)" "await_with_timeout t k = [] \<longleftrightarrow> timed_ok t"
  by (auto simp: await_with_timeout_def timed_ok_def split: timed.splits sum.splits)

lemma join_complaints: "complaints (join_with_timeout d t k) = join_with_timeout d t k"
  "length (join_with_timeout d t k) = (if timed_ok t then 0 else 1)" "join_with_timeout d t k = [] \<longleftrightarrow> timed_ok t"
  by (auto simp: join_with_timeout_def timed_ok_def split: timed.splits sum.splits)

text \<open>
  C23. Whatever the shutdown task meets - a signal handler that fails, an inner node that does
  not stop, tasks that panic or hang, a chain state that cannot be written - it runs to its end:
  the chain is flushed once, both signals are set, the node is inactive, and the log has one
  complaint for each of the five that failed and no other.
\<close>

theorem shutdown_task_reports:
  assumes "run_shutdown_task o1 n = (logs, n')"
  shows "n' = n\<lparr>kill_signal := True, cancellation_token := True, state := Inactive,
      backend := snd (chain_flush o1 (backend n))\<rparr> \<and>
    length (complaints logs) =
      (if \<exists>e. shutdown_cause o1 = SigintBranch (Inl e) then 1 else 0) +
      (if timed_ok (node_stopped o1) then 0 else 1) + (if timed_ok (node_joined o1) then 0 else 1) +
      (if timed_ok (update_joined o1) then 0 else 1) +
      (if \<exists>e. fst (chain_flush o1 (backend n)) = Inl e then 1 else 0)"
proof -
  obtain l0 reason where sel: "select_reason o1 = (l0, reason)" by force
  then have l0: "length (complaints l0) = (if \<exists>e. shutdown_cause o1 = SigintBranch (Inl e) then 1 else 0)"
    by (auto simp: select_reason_def split: cause.splits sum.splits)
  obtain r w where fl: "chain_flush o1 (backend n) = (r, w)" by force
  from assms sel fl l0 show ?thesis
    by (cases r) (auto simp: run_shutdown_task_def Let_def await_complaints join_complaints)
qed

section \<open>The same task in the interleaving model\<close>

fun shutdown_steps :: "nat \<Rightarrow> ('n, 'r, 'w, 'x) sys \<Rightarrow> ('n, 'r, 'w, 'x) sys" where
  "shutdown_steps 0 s = s"
| "shutdown_steps (Suc k) s = (case shutdown_step s of None \<Rightarrow> s | Some t \<Rightarrow> shutdown_steps k t)"


definition sample_world :: "(nat, nat, nat, unit) shutdown_world" where
  "sample_world = \<lparr>shutdown_cause = CancelledBranch, node_stopped = TimedOut, node_joined = InTime (Inl 3),
     update_joined = InTime (Inr ()), chain_flush = (\<lambda>w. (Inl 7, w)), io_text = dec, join_debug = dec,
     flush_text = dec\<rparr>"

theorem shutdown_task_reports_witness:
  "length (complaints (fst (run_shutdown_task sample_world (sample_node () Operational)))) = 3"
  using shutdown_task_reports [OF prod.collapse [symmetric], of sample_world "sample_node () Operational"]
  by (simp add: sample_world_def timed_ok_def)


end
