(* ===== verification/Channel.thy ===== *)
theory Channel
  imports Prelude
begin

text \<open>
  The contract of an unbounded channel, as the block receiver of a continuous scan relies on it
  and as the block sink provides it: a put message is pending until it is taken, in order, and a
  take finds nothing only if nothing is pending. \<open>live\<close> says that the channel is connected.
\<close>

locale fifo_channel =
  fixes live :: "'q \<Rightarrow> bool"
    and pending :: "'q \<Rightarrow> 'm list"
    and put :: "'m \<Rightarrow> 'q \<Rightarrow> 'q"
    and take_one :: "'q \<Rightarrow> 'm option \<times> 'q"
  assumes put_live: "live q \<Longrightarrow> live (put m q)"
    and put_pending: "live q \<Longrightarrow> pending (put m q) = pending q @ [m]"
    and take_live: "live q \<Longrightarrow> live (snd (take_one q))"
    and take_pending: "live q \<Longrightarrow>
      (case fst (take_one q) of None \<Rightarrow> [] | Some m \<Rightarrow> [m]) @ pending (snd (take_one q)) = pending q"
    and take_nothing: "live q \<Longrightarrow> fst (take_one q) = None \<Longrightarrow> pending q = []"
begin

lemma puts:
  "live q \<Longrightarrow> live (foldl (\<lambda>q m. put m q) q ms) \<and> pending (foldl (\<lambda>q m. put m q) q ms) = pending q @ ms"
  by (induction ms arbitrary: q) (simp_all add: put_live put_pending)

lemma take_some_iff: "live q \<Longrightarrow> fst (take_one q) = Some m \<longleftrightarrow> (\<exists>ms. pending q = m # ms)"
  using take_pending [of q] take_nothing [of q] by (cases "fst (take_one q)") (auto, metis)

lemma takes_what_was_put:
  assumes "live q" and "pending q = []"
  shows "fst (take_one (put m q)) = Some m \<and> pending (snd (take_one (put m q))) = []"
  using take_some_iff [OF put_live [OF assms(1)], of m m] put_pending [OF assms(1), of m]
    take_pending [OF put_live [OF assms(1)], of m] assms(2) by auto

end

end
