(* ===== verification/Forwarding.thy ===== *)
theory Forwarding
  imports Channel
begin

text \<open>
  The block sink of \<open>src/src/client/mod.rs\<close> (\<open>BlockSink\<close>, \<open>BlockFwdGuard\<close> and
  \<open>Client::enable_block_forwarding\<close>): how the blocks the node validates reach a continuous scan.

  A channel is a number, its messages are kept in \<open>queue\<close>, and the sink holds the sender of at
  most one channel. \<open>sink\<close> is \<open>None\<close> until the client creates it, and \<open>subscriptions\<close> counts how
  often the client registered it with the node. A queue whose receiver is gone is never read.
\<close>

record 'b forward =
  sink :: "nat option mutex option"
  queue :: "nat \<Rightarrow> ('b \<times> u32) list"
  next_channel :: nat
  subscriptions :: nat

definition no_forwarding :: "'b forward" where
  "no_forwarding = \<lparr>sink = None, queue = (\<lambda>_. []), next_channel = 0, subscriptions = 0\<rparr>"

definition on_block :: "'b \<Rightarrow> u32 \<Rightarrow> 'b forward \<Rightarrow> 'b forward" where
  "on_block b height f =
     (case sink f of
        None \<Rightarrow> f
      | Some m \<Rightarrow>
          (case mutex_lock m of
             Inl _ \<Rightarrow> f
           | Inr None \<Rightarrow> f
           | Inr (Some ch) \<Rightarrow> f\<lparr>queue := (queue f)(ch := queue f ch @ [(b, height)])\<rparr>))"

definition wants_spent_utxos :: bool where
  "wants_spent_utxos = False"

text \<open>The result is the channel of the receiver; the guard is the obligation to run \<open>guard_drop\<close>.\<close>

definition enable_block_forwarding :: "'b forward \<Rightarrow> (unit + nat) \<times> 'b forward" where
  "enable_block_forwarding f0 =
     (let ch = next_channel f0; f = f0\<lparr>next_channel := Suc ch\<rparr> in
      case sink f of
        Some m \<Rightarrow>
          (case mutex_lock m of
             Inl _ \<Rightarrow> (Inl (), f)
           | Inr _ \<Rightarrow> (Inr ch, f\<lparr>sink := Some (m\<lparr>guarded := Some ch\<rparr>)\<rparr>))
      | None \<Rightarrow>
          (Inr ch, f\<lparr>sink := Some (mutex_new (Some ch)), subscriptions := Suc (subscriptions f)\<rparr>))"

definition guard_drop :: "'b forward \<Rightarrow> 'b forward" where
  "guard_drop f =
     (case sink f of
        None \<Rightarrow> f
      | Some m \<Rightarrow> if poisoned m then f else f\<lparr>sink := Some (m\<lparr>guarded := None\<rparr>)\<rparr>)"

text \<open>The node calls every registered consumer once per validated block.\<close>

definition validated :: "'b \<Rightarrow> u32 \<Rightarrow> 'b forward \<Rightarrow> 'b forward" where
  "validated b height f = (on_block b height ^^ subscriptions f) f"

datatype 'b received = Received 'b u32 | Pending | Closed

definition sender_alive :: "nat \<Rightarrow> 'b forward \<Rightarrow> bool" where
  "sender_alive ch f \<longleftrightarrow> (\<exists>m. sink f = Some m \<and> \<not> poisoned m \<and> guarded m = Some ch)"

definition recv :: "nat \<Rightarrow> 'b forward \<Rightarrow> 'b received \<times> 'b forward" where
  "recv ch f =
     (case queue f ch of
        (b, h) # rest \<Rightarrow> (Received b h, f\<lparr>queue := (queue f)(ch := rest)\<rparr>)
      | [] \<Rightarrow> ((if \<exists>m \<in> set_option (sink f). guarded m = Some ch then Pending else Closed), f))"

section \<open>Sessions\<close>

text \<open>The sink is registered at most once, and its channel is one that was created.\<close>

definition forward_inv :: "'b forward \<Rightarrow> bool" where
  "forward_inv f \<longleftrightarrow> subscriptions f = (if sink f = None then 0 else 1) \<and>
     (\<forall>m. sink f = Some m \<longrightarrow> (\<forall>ch. guarded m = Some ch \<longrightarrow> ch < next_channel f)) \<and>
     (\<forall>ch. next_channel f \<le> ch \<longrightarrow> queue f ch = [])"

lemma on_block_simps [simp]:
  "sink (on_block b h f) = sink f" "subscriptions (on_block b h f) = subscriptions f"
  "next_channel (on_block b h f) = next_channel f"
  by (auto simp: on_block_def split: option.splits sum.splits)

lemma forward_inv_init: "forward_inv no_forwarding"
  by (simp add: forward_inv_def no_forwarding_def)

lemma on_block_inv: "forward_inv f \<Longrightarrow> forward_inv (on_block b h f)"
  by (auto simp: forward_inv_def on_block_def mutex_lock_def split: option.splits sum.splits if_splits)

lemma validated_once: "forward_inv f \<Longrightarrow> validated b h f = on_block b h f"
  by (auto simp: validated_def forward_inv_def on_block_def split: if_splits)

lemma validated_inv: "forward_inv f \<Longrightarrow> forward_inv (validated b h f)"
  by (simp add: validated_once on_block_inv)

lemma enable_inv:
  "forward_inv f \<Longrightarrow> enable_block_forwarding f = (r, f') \<Longrightarrow> forward_inv f'"
  by (auto simp: forward_inv_def enable_block_forwarding_def Let_def mutex_lock_def less_Suc_eq
      split: option.splits sum.splits if_splits)

lemma guard_drop_inv: "forward_inv f \<Longrightarrow> forward_inv (guard_drop f)"
  by (auto simp: forward_inv_def guard_drop_def split: option.splits)

lemma recv_inv: "forward_inv f \<Longrightarrow> recv ch f = (r, f') \<Longrightarrow> forward_inv f'"
  by (auto simp: forward_inv_def recv_def split: list.splits prod.splits)

lemma enable_opens:
  assumes "forward_inv f" and "enable_block_forwarding f = (Inr ch, f')"
  shows "sender_alive ch f'" and "queue f' ch = []"
  using assms
  by (auto simp: forward_inv_def enable_block_forwarding_def Let_def mutex_lock_def sender_alive_def
      split: option.splits sum.splits if_splits)

lemma on_block_alive:
  "sender_alive ch f \<Longrightarrow> queue (on_block b h f) ch = queue f ch @ [(b, h)]"
  by (auto simp: sender_alive_def on_block_def mutex_lock_def)

lemma on_block_disabled:
  "\<not> (\<exists>ch. sender_alive ch f) \<Longrightarrow> on_block b h f = f"
  by (auto simp: sender_alive_def on_block_def mutex_lock_def split: option.splits sum.splits if_splits)

text \<open>The block sink provides the contract of a channel, for the channel it is attached to.\<close>

definition attached :: "nat \<Rightarrow> 'b forward \<Rightarrow> bool" where
  "attached ch f \<longleftrightarrow> forward_inv f \<and> sender_alive ch f"

definition take_block :: "nat \<Rightarrow> 'b forward \<Rightarrow> ('b \<times> u32) option \<times> 'b forward" where
  "take_block ch f =
     (let (r, f') = recv ch f in (case r of Received b h \<Rightarrow> Some (b, h) | _ \<Rightarrow> None, f'))"

lemma recv_alive:
  assumes "sender_alive ch f" and "recv ch f = (r, f')"
  shows "sender_alive ch f'" and "r \<noteq> Closed"
    and "(case r of Received b h \<Rightarrow> [(b, h)] | _ \<Rightarrow> []) @ queue f' ch = queue f ch"
    and "r = Pending \<Longrightarrow> queue f ch = []"
  using assms by (auto simp: recv_def sender_alive_def split: list.splits prod.splits if_splits)

lemma take_block_eq:
  assumes "attached ch f"
  shows "recv ch f = (case fst (take_block ch f) of None \<Rightarrow> Pending | Some (b, h) \<Rightarrow> Received b h,
    snd (take_block ch f))"
  using assms
  by (cases "recv ch f", cases "fst (recv ch f)")
    (auto simp: take_block_def attached_def dest: recv_alive(2))

interpretation block_channel: fifo_channel "attached ch" "\<lambda>f. queue f ch" "\<lambda>(b, h). validated b h"
  "take_block ch" for ch
proof
  fix f :: "'a forward" and m :: "'a \<times> u32"
  assume f: "attached ch f"
  obtain b h where m: "m = (b, h)" by force
  from f show "attached ch ((case m of (b, h) \<Rightarrow> validated b h) f)"
    by (simp add: m attached_def on_block_inv validated_once sender_alive_def)
  from f show "queue ((case m of (b, h) \<Rightarrow> validated b h) f) ch = queue f ch @ [m]"
    by (simp add: m attached_def validated_once on_block_alive)
next
  fix f :: "'a forward"
  assume f: "attached ch f"
  obtain r f' where r: "recv ch f = (r, f')" by force
  from f have a: "sender_alive ch f" and i: "forward_inv f" by (simp_all add: attached_def)
  note rs = recv_alive [OF a r] recv_inv [OF i r]
  show "attached ch (snd (take_block ch f))" using rs r by (simp add: take_block_def attached_def)
  show "(case fst (take_block ch f) of None \<Rightarrow> [] | Some m \<Rightarrow> [m]) @ queue (snd (take_block ch f)) ch = queue f ch"
    using rs r by (cases r) (auto simp: take_block_def)
  show "fst (take_block ch f) = None \<Longrightarrow> queue f ch = []"
    using rs r by (cases r) (auto simp: take_block_def)
qed

text \<open>What happens to a channel during a session: blocks are validated, the scan receives.\<close>

datatype 'b session_event = Validate 'b u32 | Receive

fun session :: "nat \<Rightarrow> 'b session_event list \<Rightarrow> 'b forward \<Rightarrow> 'b received list \<times> 'b forward" where
  "session ch [] f = ([], f)"
| "session ch (Validate b h # es) f = session ch es (validated b h f)"
| "session ch (Receive # es) f =
     (let (r, f') = recv ch f; (rs, f'') = session ch es f' in (r # rs, f''))"

fun validated_blocks :: "'b session_event list \<Rightarrow> ('b \<times> u32) list" where
  "validated_blocks [] = []"
| "validated_blocks (Validate b h # es) = (b, h) # validated_blocks es"
| "validated_blocks (Receive # es) = validated_blocks es"

fun received_blocks :: "'b received list \<Rightarrow> ('b \<times> u32) list" where
  "received_blocks [] = []"
| "received_blocks (Received b h # rs) = (b, h) # received_blocks rs"
| "received_blocks (_ # rs) = received_blocks rs"

lemma session_fifo:
  assumes "attached ch f" and "session ch es f = (rs, f')"
  shows "received_blocks rs @ queue f' ch = queue f ch @ validated_blocks es \<and> Closed \<notin> set rs \<and>
    attached ch f'"
  using assms
proof (induction es arbitrary: f rs)
  case Nil
  then show ?case by simp
next
  case (Cons e es)
  show ?case
  proof (cases e)
    case (Validate b h)
    with Cons.IH [OF block_channel.put_live [OF Cons.prems(1), of "(b, h)"], of rs] Cons.prems
      block_channel.put_pending [OF Cons.prems(1), of "(b, h)"]
    show ?thesis by simp
  next
    case Receive
    obtain m g where t: "take_block ch f = (m, g)" by force
    with Cons.prems Receive take_block_eq [OF Cons.prems(1)] obtain rs' where
      rs': "session ch es g = (rs', f')" and rs: "rs = (case m of None \<Rightarrow> Pending | Some (b, h) \<Rightarrow> Received b h) # rs'"
      by (auto split: prod.splits)
    have "attached ch g" using block_channel.take_live [OF Cons.prems(1)] t by simp
    from Cons.IH [OF this rs'] block_channel.take_pending [OF Cons.prems(1)] t rs Receive
    show ?thesis by (cases m) auto
  qed
qed

text \<open>
  From the moment forwarding is enabled, a scan receives every block the node validates,
  once and in the order of validation, however its receives interleave with the validations;
  what it has not received yet is queued, and the channel is never reported closed.
\<close>

theorem forwarding_is_fifo:
  assumes "forward_inv f" and "enable_block_forwarding f = (Inr ch, f1)"
    and "session ch es f1 = (rs, f2)"
  shows "received_blocks rs @ queue f2 ch = validated_blocks es \<and> Closed \<notin> set rs"
  using session_fifo [OF _ assms(3), of] enable_inv [OF assms(1,2)] enable_opens [OF assms(1,2)]
  by (simp add: attached_def)

theorem forwarding_is_fifo_witness:
  "received_blocks [Pending, Received ''b'' 7] = [(''b'', 7)]"
proof -
  let ?f1 = "snd (enable_block_forwarding no_forwarding) :: string forward"
  have en: "enable_block_forwarding no_forwarding = (Inr 0, ?f1)"
    by (simp add: enable_block_forwarding_def no_forwarding_def)
  obtain f2 where "session 0 [Receive, Validate ''b'' 7, Receive] ?f1 = ([Pending, Received ''b'' 7], f2)"
    and "queue f2 0 = []"
    by (simp add: enable_block_forwarding_def no_forwarding_def recv_def validated_def on_block_def)
  from forwarding_is_fifo [OF forward_inv_init en this(1)] this(2) show ?thesis by simp
qed

text \<open>What a client and its node do to the sink over several sessions.\<close>

datatype 'b client_event = Enable | DropGuard | Validates 'b u32 | Receives nat

fun after_event :: "'b forward \<Rightarrow> 'b client_event \<Rightarrow> 'b forward" where
  "after_event f Enable = snd (enable_block_forwarding f)"
| "after_event f DropGuard = guard_drop f"
| "after_event f (Validates b h) = validated b h f"
| "after_event f (Receives ch) = snd (recv ch f)"

lemma after_event_inv: "forward_inv f \<Longrightarrow> forward_inv (after_event f e)"
  by (cases e) (simp_all add: guard_drop_inv validated_inv enable_inv [OF _ prod.collapse [symmetric]]
      recv_inv [OF _ prod.collapse [symmetric]])

lemma client_events_inv: "forward_inv f \<Longrightarrow> forward_inv (foldl after_event f es)"
  by (induction es arbitrary: f) (auto simp: after_event_inv)

text \<open>
  Over any sequence of sessions the sink is registered with the node at most once, and while
  no guard is alive a validated block is not retained anywhere.
\<close>

theorem sink_registered_once:
  "subscriptions (foldl after_event no_forwarding es) \<le> 1 \<and>
   validated b h (guard_drop (foldl after_event no_forwarding es)) =
     guard_drop (foldl after_event no_forwarding es)"
proof -
  let ?f = "foldl after_event no_forwarding es"
  have inv: "forward_inv ?f" by (rule client_events_inv [OF forward_inv_init])
  have "\<not> (\<exists>ch. sender_alive ch (guard_drop ?f))"
    by (auto simp: sender_alive_def guard_drop_def split: option.splits if_splits)
  with validated_once [OF guard_drop_inv [OF inv]] have
    "validated b h (guard_drop ?f) = guard_drop ?f" by (simp add: on_block_disabled)
  moreover from inv have "subscriptions ?f \<le> 1" by (simp add: forward_inv_def)
  ultimately show ?thesis by blast
qed

end
