(* ===== verification/Client.thy ===== *)
theory Client
  imports Node Forwarding ClientErrors
begin

text \<open>
  The client of \<open>src/src/client/mod.rs\<close>: its state, its construction and drop, the derivation
  of the scripts it scans for, the updates it builds and the events it sends, and the wait for
  the node to become operational.

  What a client shares with other tasks is in \<open>shared\<close>: the node, the block sink, the slot of
  the event sender and its cancellation token. Its other fields are its own, since its methods
  borrow it exclusively. Another task can run before any access to the shared part: \<open>env i\<close> is
  what the others do to it before the access numbered \<open>i\<close>, and nothing is assumed of it.
\<close>

datatype KeychainKind = External | Internal

definition FULL_SCAN_LOOKAHEAD :: u32 where
  "FULL_SCAN_LOOKAHEAD = 1000"

datatype ScanKind =
    Sync
  | FullScan "u32 option"
  | Custom u32 u32

text \<open>The library's \<open>Update\<close>, over its transaction updates \<open>'t\<close> and checkpoints \<open>'c\<close>.\<close>

record ('t, 'c) Update =
  tx_update :: 't
  last_active_indices :: "KeychainKind \<rightharpoonup> u32"
  chain :: "'c option"

datatype ('t, 'c) ScanEvent =
    WalletUpdate "('t, 'c) Update"
  | ScanFinished bool
  | ScanError string

text \<open>
  The wallet library (checkpoints \<open>'c\<close>, indexed transaction graphs \<open>'g\<close>, keychain indexes \<open>'i\<close>):
  the functions the client calls. \<open>apply_block_relevant\<close> returns whether the change set is empty
  and the graph after it. The scripts of a keychain are the items of its unbounded iterator.
\<close>

record ('b, 'c, 'g, 'i, 't) wallet_lib =
  block_hash :: "'b \<Rightarrow> BlockHash"
  cp_height :: "'c \<Rightarrow> u32"
  cp_insert :: "'c \<Rightarrow> u32 \<times> BlockHash \<Rightarrow> 'c"
  graph_new :: "'i \<Rightarrow> 'g"
  graph_index :: "'g \<Rightarrow> 'i"
  graph_update :: "'g \<Rightarrow> 't"
  apply_block_relevant :: "'b \<Rightarrow> u32 \<Rightarrow> 'g \<Rightarrow> bool \<times> 'g"
  lookahead :: "'i \<Rightarrow> u32"
  last_used_indices :: "'i \<Rightarrow> (KeychainKind \<rightharpoonup> u32)"
  last_revealed_indices :: "'i \<Rightarrow> (KeychainKind \<rightharpoonup> u32)"
  unbounded_spk_iter :: "KeychainKind \<Rightarrow> 'i \<Rightarrow> (u32 \<times> bytes) list option"

text \<open>A wallet: its network, latest checkpoint and keychain index.\<close>

record ('n, 'c, 'i) Wallet =
  wallet_network :: 'n
  latest_checkpoint :: 'c
  spk_index :: 'i

section \<open>The state of a client\<close>

text \<open>
  \<open>event_tx\<close> is \<open>Some\<close> (here \<open>True\<close>) while the sender exists. \<open>sent\<close> is every event handed to
  the sender, in order, and \<open>clock\<close> counts the accesses to the shared part.
\<close>

record ('n, 'r, 'w, 'b) shared =
  node :: "('n, 'r, 'w) Node"
  block_sink :: "'b forward"
  event_tx :: "bool mutex"
  client_token :: bool

record ('n, 'r, 'w, 'b, 'c, 'g, 't) Client =
  shared :: "('n, 'r, 'w, 'b) shared"
  checkpoint :: 'c
  tx_graph :: 'g
  shutdown_watcher :: bool
  sent :: "('t, 'c) ScanEvent list"
  clock :: nat

type_synonym ('n, 'r, 'w, 'b) others =
  "nat \<Rightarrow> ('n, 'r, 'w, 'b) shared \<Rightarrow> ('n, 'r, 'w, 'b) shared"

type_synonym ('n, 'r, 'w, 'b, 'c, 'g, 't, 'x, 'a) client_comp =
  "(('n, 'r, 'w, 'b, 'c, 'g, 't) Client, ('x, 'n) ClientError, 'a) comp"

text \<open>One access to the shared part, after what the other tasks did before it.\<close>

definition access ::
  "('n, 'r, 'w, 'b) others \<Rightarrow>
   (('n, 'r, 'w, 'b) shared \<Rightarrow> (('x, 'n) ClientError + 'a) \<times> ('n, 'r, 'w, 'b) shared) \<Rightarrow>
   ('n, 'r, 'w, 'b, 'c, 'g, 't, 'x, 'a) client_comp" where
  "access env f = (\<lambda>s.
     let (r, sh) = f (env (clock s) (shared s))
     in (r, s\<lparr>shared := sh, clock := Suc (clock s)\<rparr>))"

text \<open>A call of a method of the node, with the conversion of its error.\<close>

definition on_node ::
  "('n, 'r, 'w, 'b) others \<Rightarrow>
   (('n, 'r, 'w) Node \<Rightarrow> ('x NodeError + 'a) \<times> ('n, 'r, 'w) Node) \<Rightarrow>
   ('n, 'r, 'w, 'b, 'c, 'g, 't, 'x, 'a) client_comp" where
  "on_node env call = access env (\<lambda>sh.
     let (r, n) = call (node sh) in (map_err from_NodeError r, sh\<lparr>node := n\<rparr>))"

definition ask_node ::
  "('n, 'r, 'w, 'b) others \<Rightarrow> (('n, 'r, 'w) Node \<Rightarrow> 'x NodeError + 'a) \<Rightarrow>
   ('n, 'r, 'w, 'b, 'c, 'g, 't, 'x, 'a) client_comp" where
  "ask_node env call = on_node env (\<lambda>n. (call n, n))"

section \<open>Construction, accessors, drop\<close>

definition client_new ::
  "('b, 'c, 'g, 'i, 't) wallet_lib \<Rightarrow> ('n, 'r, 'w) Node \<Rightarrow> ('n, 'c, 'i) Wallet \<Rightarrow>
   ('x, 'n) ClientError + ('n, 'r, 'w, 'b, 'c, 'g, 't) Client" where
  "client_new wl n w =
     (if wallet_network w \<noteq> network (config n)
      then Inl (NetworkMismatch (network (config n)) (wallet_network w))
      else Inr \<lparr>shared = \<lparr>node = n, block_sink = no_forwarding, event_tx = mutex_new True,
                  client_token = False\<rparr>,
                checkpoint = latest_checkpoint w, tx_graph = graph_new wl (spk_index w),
                shutdown_watcher = True, sent = [], clock = 0\<rparr>)"

definition take_sender :: "('n, 'r, 'w, 'b) shared \<Rightarrow> ('n, 'r, 'w, 'b) shared" where
  "take_sender sh =
     (if poisoned (event_tx sh) then sh else sh\<lparr>event_tx := (event_tx sh)\<lparr>guarded := False\<rparr>\<rparr>)"

text \<open>The task \<open>new\<close> spawns: once the node's token is cancelled it cancels the client's token,
  then drops the sender.\<close>

definition watcher_cancel :: "('n, 'r, 'w, 'b) shared \<Rightarrow> ('n, 'r, 'w, 'b) shared" where
  "watcher_cancel sh = (if cancellation_token (node sh) then sh\<lparr>client_token := True\<rparr> else sh)"

definition watcher_take :: "('n, 'r, 'w, 'b) shared \<Rightarrow> ('n, 'r, 'w, 'b) shared" where
  "watcher_take sh = (if cancellation_token (node sh) then take_sender sh else sh)"

definition get_checkpoint :: "('n, 'r, 'w, 'b, 'c, 'g, 't) Client \<Rightarrow> 'c" where
  "get_checkpoint s = checkpoint s"

definition client_drop ::
  "('n, 'r, 'w, 'b, 'c, 'g, 't) Client \<Rightarrow> ('n, 'r, 'w, 'b, 'c, 'g, 't) Client" where
  "client_drop s =
     s\<lparr>shutdown_watcher := False,
       shared := take_sender ((shared s)\<lparr>client_token := True\<rparr>)\<rparr>"

section \<open>Scripts\<close>

definition derive_spks_with_custom_lookahead ::
  "('b, 'c, 'g, 'i, 't) wallet_lib \<Rightarrow> u32 \<Rightarrow> ('n, 'r, 'w, 'b, 'c, 'g, 't) Client \<Rightarrow>
   ('x, 'n) ClientError + bytes list" where
  "derive_spks_with_custom_lookahead wl custom_lookahead s =
     (let keychain_index = graph_index wl (tx_graph s);
          revealed = last_revealed_indices wl keychain_index;
          external_index = unwrap_or 0 (revealed External)
      in and_then (ok_or NoExternalKeychain (unbounded_spk_iter wl External keychain_index))
        (\<lambda>external_key_iter.
          let bound = unat (saturating_add external_index custom_lookahead);
              spks = map snd (take bound external_key_iter);
              internal_index = unwrap_or 0 (revealed Internal)
          in case unbounded_spk_iter wl Internal keychain_index of
               None \<Rightarrow> Inr spks
             | Some internal_key_iter \<Rightarrow>
                 let bound' = unat (saturating_add internal_index custom_lookahead)
                 in Inr (spks @ map snd (take bound' internal_key_iter))))"

definition derive_spks ::
  "('b, 'c, 'g, 'i, 't) wallet_lib \<Rightarrow> ('n, 'r, 'w, 'b, 'c, 'g, 't) Client \<Rightarrow>
   ('x, 'n) ClientError + bytes list" where
  "derive_spks wl s =
     derive_spks_with_custom_lookahead wl (lookahead wl (graph_index wl (tx_graph s))) s"

section \<open>Updates and events\<close>

definition finish_update ::
  "('b, 'c, 'g, 'i, 't) wallet_lib \<Rightarrow> ('n, 'r, 'w, 'b, 'c, 'g, 't) Client \<Rightarrow>
   ('t, 'c) Update \<times> ('n, 'r, 'w, 'b, 'c, 'g, 't) Client" where
  "finish_update wl s =
     (let txu = graph_update wl (tx_graph s);
          last_active = last_used_indices wl (graph_index wl (tx_graph s));
          tx_graph_index = graph_index wl (tx_graph s);
          s1 = s\<lparr>tx_graph := graph_new wl tx_graph_index\<rparr>
      in (\<lparr>tx_update = txu, last_active_indices = last_active, chain = Some (checkpoint s1)\<rparr>, s1))"

text \<open>The lock is taken in an access to the shared part; a sender that is gone drops the event.\<close>

definition lock_event_tx ::
  "('n, 'r, 'w, 'b) others \<Rightarrow> ('n, 'r, 'w, 'b, 'c, 'g, 't, 'x, bool) client_comp" where
  "lock_event_tx env =
     access env (\<lambda>sh. (map_err (\<lambda>_. PoisonedLock) (mutex_lock (event_tx sh)), sh))"

definition send_event ::
  "('n, 'r, 'w, 'b) others \<Rightarrow> ('t, 'c) ScanEvent \<Rightarrow>
   ('n, 'r, 'w, 'b, 'c, 'g, 't, 'x, unit) client_comp" where
  "send_event env event =
     bindE (lock_event_tx env) (\<lambda>open.
     if open then modifyE (\<lambda>s. s\<lparr>sent := sent s @ [event]\<rparr>) else returnE ())"

text \<open>
  The three statements that follow a relevant block and the end of a scan: insert the block
  into the checkpoint, build the update, send it.
\<close>

definition publish ::
  "('b, 'c, 'g, 'i, 't) wallet_lib \<Rightarrow> ('n, 'r, 'w, 'b) others \<Rightarrow> u32 \<times> BlockHash \<Rightarrow>
   ('n, 'r, 'w, 'b, 'c, 'g, 't, 'x, unit) client_comp" where
  "publish wl env block_id =
     bindE (modifyE (\<lambda>s. s\<lparr>checkpoint := cp_insert wl (checkpoint s) block_id\<rparr>)) (\<lambda>_.
     bindE (\<lambda>s. let (u, s1) = finish_update wl s in (Inr u, s1)) (\<lambda>update.
     send_event env (WalletUpdate update)))"

section \<open>Waiting for the node\<close>

text \<open>
  The \<open>select!\<close> of \<open>wait_until_ready\<close> polls its branches when it is woken. A schedule is the
  list of these polls: of the cancellation, which is ready only if the token is cancelled, or of
  the state channel, which says that the state changed or that its sender is gone. A schedule
  that runs out leaves the task suspended, the result \<open>None\<close>.
\<close>

datatype wake = PollCancelled | StateChanged | SenderGone

definition borrow_state ::
  "('n, 'r, 'w, 'b) others \<Rightarrow> ('n, 'r, 'w, 'b, 'c, 'g, 't, 'x, unit option) client_comp" where
  "borrow_state env = access env (\<lambda>sh.
     (case state (node sh) of
        Operational \<Rightarrow> Inr (Some ())
      | ShuttingDown \<Rightarrow> Inl ClientError.UnresponsiveNode
      | Inactive \<Rightarrow> Inl ClientError.UnresponsiveNode
      | _ \<Rightarrow> Inr None, sh))"

definition check_cancelled ::
  "('n, 'r, 'w, 'b) others \<Rightarrow> ('n, 'r, 'w, 'b, 'c, 'g, 't, 'x, unit) client_comp" where
  "check_cancelled env =
     access env (\<lambda>sh. (if client_token sh then Inl ScanAborted else Inr (), sh))"

fun select_ready ::
  "('n, 'r, 'w, 'b) others \<Rightarrow> wake list \<Rightarrow> ('n, 'r, 'w, 'b, 'c, 'g, 't) Client \<Rightarrow>
   (('x, 'n) ClientError + unit) option \<times> ('n, 'r, 'w, 'b, 'c, 'g, 't) Client" where
  "select_ready env [] s = (None, s)"
| "select_ready env (PollCancelled # ws) s =
     (case check_cancelled env s of
        (Inl e, s1) \<Rightarrow> (Some (Inl e), s1)
      | (Inr _, s1) \<Rightarrow> select_ready env ws s1)"
| "select_ready env (SenderGone # ws) s = (Some (Inl ClientError.UnresponsiveNode), s)"
| "select_ready env (StateChanged # ws) s =
     (case borrow_state env s of
        (Inl e, s1) \<Rightarrow> (Some (Inl e), s1)
      | (Inr (Some _), s1) \<Rightarrow> (Some (Inr ()), s1)
      | (Inr None, s1) \<Rightarrow> select_ready env ws s1)"

definition wait_until_ready ::
  "('n, 'r, 'w, 'b) others \<Rightarrow> wake list \<Rightarrow> ('n, 'r, 'w, 'b, 'c, 'g, 't) Client \<Rightarrow>
   (('x, 'n) ClientError + unit) option \<times> ('n, 'r, 'w, 'b, 'c, 'g, 't) Client" where
  "wait_until_ready env ws s =
     (case borrow_state env s of
        (Inl e, s1) \<Rightarrow> (Some (Inl e), s1)
      | (Inr (Some _), s1) \<Rightarrow> (Some (Inr ()), s1)
      | (Inr None, s1) \<Rightarrow> select_ready env ws s1)"

section \<open>Reasoning about accesses\<close>

text \<open>The part of a client no other task can touch.\<close>

definition own ::
  "('n, 'r, 'w, 'b, 'c, 'g, 't) Client \<Rightarrow> 'c \<times> 'g \<times> bool \<times> ('t, 'c) ScanEvent list" where
  "own s = (checkpoint s, tx_graph s, shutdown_watcher s, sent s)"

lemma own_frame [simp]:
  "own (s\<lparr>shared := sh\<rparr>) = own s" "own (s\<lparr>clock := n\<rparr>) = own s"
  by (simp_all add: own_def)

lemma access_cases:
  obtains r sh where "f (env (clock s) (shared s)) = (r, sh)"
    "access env f s = (r, s\<lparr>shared := sh, clock := Suc (clock s)\<rparr>)"
  by (cases "f (env (clock s) (shared s))") (simp add: access_def)

lemma access_own: "access env f s = (r, s') \<Longrightarrow> own s' = own s"
  by (auto simp: access_def Let_def split: prod.splits)

lemma on_node_own: "on_node env f s = (r, s') \<Longrightarrow> own s' = own s"
  unfolding on_node_def by (rule access_own)

lemma ask_node_own: "ask_node env f s = (r, s') \<Longrightarrow> own s' = own s"
  unfolding ask_node_def by (rule on_node_own)

lemma check_cancelled_own: "check_cancelled env s = (r, s') \<Longrightarrow> own s' = own s"
  unfolding check_cancelled_def by (rule access_own)

lemma borrow_state_own: "borrow_state env s = (r, s') \<Longrightarrow> own s' = own s"
  unfolding borrow_state_def by (rule access_own)

lemmas own_keeps = access_own on_node_own ask_node_own check_cancelled_own
  borrow_state_own

lemma on_node_eq:
  "on_node env f s =
     (map_err from_NodeError (fst (f (node (env (clock s) (shared s))))),
      s\<lparr>shared := (env (clock s) (shared s))\<lparr>node := snd (f (node (env (clock s) (shared s))))\<rparr>,
        clock := Suc (clock s)\<rparr>)"
  by (simp add: on_node_def access_def Let_def split: prod.splits)

lemma ask_node_eq:
  "ask_node env f s =
     (map_err from_NodeError (f (node (env (clock s) (shared s)))),
      s\<lparr>shared := env (clock s) (shared s), clock := Suc (clock s)\<rparr>)"
  by (simp add: ask_node_def on_node_eq)

lemma check_cancelled_eq:
  "check_cancelled env s =
     (if client_token (env (clock s) (shared s)) then Inl ScanAborted else Inr (),
      s\<lparr>shared := env (clock s) (shared s), clock := Suc (clock s)\<rparr>)"
  by (simp add: check_cancelled_def access_def)

lemma lock_event_tx_eq:
  "lock_event_tx env s =
     (if poisoned (event_tx (env (clock s) (shared s))) then Inl PoisonedLock
      else Inr (guarded (event_tx (env (clock s) (shared s)))),
      s\<lparr>shared := env (clock s) (shared s), clock := Suc (clock s)\<rparr>)"
  by (simp add: lock_event_tx_def access_def mutex_lock_def)

section \<open>What a scan looks for\<close>

text \<open>
  The scripts of one keychain among the first \<open>index + lookahead\<close> of its iterator, the sum over
  unbounded numbers, up to the largest bound a \<open>u32\<close> holds.
\<close>

definition keychain_spks ::
  "('b, 'c, 'g, 'i, 't) wallet_lib \<Rightarrow> u32 \<Rightarrow> 'i \<Rightarrow> KeychainKind \<Rightarrow> bytes list" where
  "keychain_spks wl la ix k =
     map snd (take (min (unat (unwrap_or 0 (last_revealed_indices wl ix k)) + unat la) (2 ^ 32 - 1))
       (unwrap_or [] (unbounded_spk_iter wl k ix)))"

lemma derive_spks_eq:
  "derive_spks_with_custom_lookahead wl la s =
     (let ix = graph_index wl (tx_graph s) in
      if unbounded_spk_iter wl External ix = None then Inl NoExternalKeychain
      else Inr (keychain_spks wl la ix External @ keychain_spks wl la ix Internal))"
  by (auto simp: derive_spks_with_custom_lookahead_def keychain_spks_def Let_def unat_saturating_add
      split: option.splits)

lemma distinct_nth_take_iff:
  assumes "distinct xs" and "i < length xs"
  shows "xs ! i \<in> set (take n xs) \<longleftrightarrow> i < n"
proof
  assume "xs ! i \<in> set (take n xs)"
  then obtain j where "j < length xs" and "j < n" and "xs ! j = xs ! i"
    by (auto simp: in_set_conv_nth)
  with assms show "i < n" by (simp add: nth_eq_iff_index_eq)
qed (use assms in \<open>auto simp: in_set_conv_nth intro!: exI [of _ i]\<close>)

lemma keychain_spks_mem:
  assumes "unbounded_spk_iter wl k ix = Some scripts" and "distinct (map snd scripts)"
    and "i < length scripts" and "last_revealed_indices wl ix k = Some r"
  shows "snd (scripts ! i) \<in> set (keychain_spks wl la ix k) \<longleftrightarrow> i < min (unat r + unat la) (2 ^ 32 - 1)"
proof -
  let ?n = "min (unat r + unat la) (2 ^ 32 - 1)"
  have "snd (scripts ! i) \<in> set (take ?n (map snd scripts)) \<longleftrightarrow> i < ?n"
    using distinct_nth_take_iff [OF assms(2), of i] assms(3) by simp
  then show ?thesis using assms(1,4) by (simp add: keychain_spks_def take_map)
qed

text \<open>
  C36. With any lookahead but zero, a scan looks for every script the wallet has revealed, of
  both keychains, and for the \<open>lookahead - 1\<close> scripts after the last revealed one; no other
  script of the keychain is looked for.
\<close>

theorem revealed_scripts_scanned:
  assumes "derive_spks_with_custom_lookahead wl la s = Inr spks"
    and "unbounded_spk_iter wl k (graph_index wl (tx_graph s)) = Some scripts"
    and "distinct (map snd scripts)" and "i < length scripts"
    and "last_revealed_indices wl (graph_index wl (tx_graph s)) k = Some r"
    and "0 < la" and "i \<le> unat r + (unat la - 1)" and "unat r + unat la < 2 ^ 32"
  shows "snd (scripts ! i) \<in> set spks"
proof -
  let ?ix = "graph_index wl (tx_graph s)"
  from assms(1) have spks: "spks = keychain_spks wl la ?ix External @ keychain_spks wl la ?ix Internal"
    by (simp add: derive_spks_eq Let_def split: if_splits)
  from assms(6) have "0 < unat la" by (simp add: unat_gt_0)
  with assms(7,8) have "i < min (unat r + unat la) (2 ^ 32 - 1)" by linarith
  with keychain_spks_mem [OF assms(2-5)] have "snd (scripts ! i) \<in> set (keychain_spks wl la ?ix k)"
    by blast
  with spks show ?thesis by (cases k) simp_all
qed

text \<open>
  The bound is one short: the last revealed script has the index of the wallet's last
  revealed index, and the scan takes only that many scripts before it adds the lookahead. With
  lookahead zero the last revealed script, on which the wallet may have been paid, is not
  looked for.
\<close>

theorem last_revealed_script_missed:
  assumes "unbounded_spk_iter wl External (graph_index wl (tx_graph s)) = Some scripts"
    and "unbounded_spk_iter wl Internal (graph_index wl (tx_graph s)) = None"
    and "distinct (map snd scripts)" and "unat r < length scripts"
    and "last_revealed_indices wl (graph_index wl (tx_graph s)) External = Some r"
  shows "\<exists>spks. derive_spks_with_custom_lookahead wl 0 s = Inr spks \<and>
    snd (scripts ! unat r) \<notin> set spks \<and> (\<forall>i < unat r. snd (scripts ! i) \<in> set spks)"
proof -
  let ?ix = "graph_index wl (tx_graph s)"
  have none: "keychain_spks wl 0 ?ix Internal = []" using assms(2) by (simp add: keychain_spks_def)
  have "unat r < 2 ^ 32" using unat_less_pow [of r] by simp
  then have "snd (scripts ! i) \<in> set (keychain_spks wl 0 ?ix External) \<longleftrightarrow> i < unat r"
    if "i \<le> unat r" for i
    using keychain_spks_mem [OF assms(1,3) _ assms(5), of i 0] that assms(4) by auto
  with none assms(1) show ?thesis by (auto simp: derive_spks_eq Let_def)
qed

section \<open>What the wait promises\<close>

definition undecided :: "State \<Rightarrow> bool" where
  "undecided st \<longleftrightarrow> st \<notin> {Operational, ShuttingDown, Inactive}"

lemma borrow_state_eq:
  "borrow_state env s =
     ((case state (node (env (clock s) (shared s))) of
         Operational \<Rightarrow> Inr (Some ())
       | ShuttingDown \<Rightarrow> Inl ClientError.UnresponsiveNode
       | Inactive \<Rightarrow> Inl ClientError.UnresponsiveNode
       | _ \<Rightarrow> Inr None),
      s\<lparr>shared := env (clock s) (shared s), clock := Suc (clock s)\<rparr>)"
  by (simp add: borrow_state_def access_def)

lemma borrow_state_undecided:
  "undecided (state (node (env (clock s) (shared s)))) \<Longrightarrow>
     borrow_state env s =
       (Inr None, s\<lparr>shared := env (clock s) (shared s), clock := Suc (clock s)\<rparr>)"
  by (cases "state (node (env (clock s) (shared s)))") (auto simp: borrow_state_eq undecided_def)

text \<open>The result of a wait is justified by what the client saw last.\<close>

definition justified ::
  "(('x, 'n) ClientError + unit) option \<Rightarrow> bool \<Rightarrow> ('n, 'r, 'w, 'b) shared \<Rightarrow> bool" where
  "justified r gone sh \<longleftrightarrow>
     (case r of
        None \<Rightarrow> True
      | Some (Inr _) \<Rightarrow> state (node sh) = Operational
      | Some (Inl e) \<Rightarrow>
          e = ScanAborted \<and> client_token sh \<or>
          e = ClientError.UnresponsiveNode \<and> (gone \<or> state (node sh) \<in> {ShuttingDown, Inactive}))"

lemma select_ready_justified:
  "select_ready env ws s = (r, s') \<Longrightarrow>
     justified r (SenderGone \<in> set ws) (shared s') \<and> own s' = own s"
proof (induction ws arbitrary: s)
  case Nil
  then show ?case by (auto simp: justified_def)
next
  case (Cons w ws)
  let ?sh = "env (clock s) (shared s)"
  let ?s1 = "s\<lparr>shared := ?sh, clock := Suc (clock s)\<rparr>"
  show ?case
  proof (cases w)
    case PollCancelled
    show ?thesis
    proof (cases "client_token ?sh")
      case True
      with Cons.prems PollCancelled show ?thesis by (auto simp: check_cancelled_eq justified_def)
    next
      case False
      with Cons.IH [of ?s1] Cons.prems PollCancelled show ?thesis by (auto simp: check_cancelled_eq)
    qed
  next
    case StateChanged
    show ?thesis
    proof (cases "undecided (state (node ?sh))")
      case True
      with Cons.IH [of ?s1] Cons.prems StateChanged show ?thesis by (auto simp: borrow_state_undecided)
    next
      case False
      with Cons.prems StateChanged show ?thesis
        by (auto simp: borrow_state_eq undecided_def justified_def)
    qed
  next
    case SenderGone
    with Cons.prems show ?thesis by (auto simp: justified_def)
  qed
qed

text \<open>
  A wait ends with \<open>Ok\<close> only if the state the client read last is operational, with
  \<open>ScanAborted\<close> only if its token is cancelled, with \<open>UnresponsiveNode\<close> only if the node is
  shut down or shutting down or its state channel is gone, and with no other error; the
  client's own fields are unchanged.
\<close>

theorem wait_until_ready_justified:
  assumes "wait_until_ready env ws s = (r, s')"
  shows "justified r (SenderGone \<in> set ws) (shared s') \<and> own s' = own s"
proof (cases "undecided (state (node (env (clock s) (shared s))))")
  case True
  with assms select_ready_justified [of env ws _ r s'] show ?thesis
    by (fastforce simp: wait_until_ready_def borrow_state_undecided)
next
  case False
  with assms show ?thesis
    by (auto simp: wait_until_ready_def borrow_state_eq undecided_def justified_def)
qed

text \<open>
  The shared part at the client's successive accesses, when these do not change it.
\<close>

fun history :: "('n, 'r, 'w, 'b) others \<Rightarrow> nat \<Rightarrow> ('n, 'r, 'w, 'b) shared \<Rightarrow> nat \<Rightarrow>
   ('n, 'r, 'w, 'b) shared" where
  "history env c sh 0 = env c sh"
| "history env c sh (Suc k) = env (c + Suc k) (history env c sh k)"

lemma history_shift: "history env (Suc c) (env c sh) k = history env c sh (Suc k)"
  by (induction k) simp_all

lemma select_ready_returns:
  "fst (select_ready env (replicate n StateChanged) s) =
     (if \<forall>k < n. undecided (state (node (history env (clock s) (shared s) k))) then None
      else Some (case state (node (history env (clock s) (shared s)
          (LEAST k. \<not> undecided (state (node (history env (clock s) (shared s) k)))))) of
        Operational \<Rightarrow> Inr () | _ \<Rightarrow> Inl ClientError.UnresponsiveNode))"
proof (induction n arbitrary: s)
  case 0
  show ?case by simp
next
  case (Suc n)
  let ?s1 = "s\<lparr>shared := env (clock s) (shared s), clock := Suc (clock s)\<rparr>"
  let ?u = "\<lambda>k. undecided (state (node (history env (clock s) (shared s) k)))"
  show ?case
  proof (cases "?u 0")
    case True
    have least: "(LEAST k. \<not> ?u k) = Suc (LEAST k. \<not> ?u (Suc k))" if "\<exists>k. \<not> ?u k"
    proof -
      from that obtain k where "\<not> ?u k" ..
      with True show ?thesis by (intro Least_Suc) auto
    qed
    have all: "(\<forall>k < Suc n. ?u k) \<longleftrightarrow> (\<forall>k < n. ?u (Suc k))"
      using True by (auto simp: less_Suc_eq_0_disj)
    show ?thesis
    proof (cases "\<forall>k < n. ?u (Suc k)")
      case True
      then show ?thesis
        using Suc.IH [of ?s1] \<open>?u 0\<close> unfolding all
        by (simp add: borrow_state_undecided history_shift del: history.simps(2))
    next
      case False
      then have "(LEAST k. \<not> ?u k) = Suc (LEAST k. \<not> ?u (Suc k))" by (intro least) blast
      then show ?thesis
        using Suc.IH [of ?s1] \<open>?u 0\<close> False unfolding all
        by (simp add: borrow_state_undecided history_shift del: history.simps(2))
    qed
  next
    case False
    then have "(LEAST k. \<not> ?u k) = 0" by (intro Least_eq_0)
    with False show ?thesis
      by (auto simp: borrow_state_eq undecided_def simp del: history.simps(2) split: State.splits)
  qed
qed

lemma wait_is_select: "wait_until_ready env ws s = select_ready env (StateChanged # ws) s"
  by (simp add: wait_until_ready_def)

text \<open>
  C33. While the client is woken by changes of the state, its wait ends at the first decided
  state it sees, \<open>Ok\<close> if that is operational, and it is suspended exactly as long as it has
  seen none: no decided state is overlooked and none of the others ends the wait.
\<close>

theorem wait_until_ready_returns:
  "fst (wait_until_ready env (replicate n StateChanged) s) =
     (if \<forall>k < Suc n. undecided (state (node (history env (clock s) (shared s) k))) then None
      else Some (case state (node (history env (clock s) (shared s)
          (LEAST k. \<not> undecided (state (node (history env (clock s) (shared s) k)))))) of
        Operational \<Rightarrow> Inr () | _ \<Rightarrow> Inl ClientError.UnresponsiveNode))"
  using select_ready_returns [of env "Suc n" s] by (simp add: wait_is_select)

section \<open>A wallet library and a client to compute with\<close>

text \<open>
  Blocks are a hash and whether they are relevant, a checkpoint is its height, a graph is the
  hashes of the relevant blocks applied to it. The external keychain has three scripts and the
  index is the last revealed one.
\<close>

definition sample_lib ::
  "(BlockHash \<times> bool, u32, u32 \<times> BlockHash list, u32, BlockHash list) wallet_lib" where
  "sample_lib = \<lparr>block_hash = fst, cp_height = id, cp_insert = (\<lambda>c (h, _). max c h),
     graph_new = (\<lambda>i. (i, [])), graph_index = fst, graph_update = snd,
     apply_block_relevant = (\<lambda>b h (i, ts). if snd b then (False, i, ts @ [fst b]) else (True, i, ts)),
     lookahead = (\<lambda>_. 2), last_used_indices = (\<lambda>_. Map.empty),
     last_revealed_indices = (\<lambda>i. [External \<mapsto> i]),
     unbounded_spk_iter = (\<lambda>k _. case k of External \<Rightarrow> Some [(0, [10]), (1, [11]), (2, [12])] | Internal \<Rightarrow> None)\<rparr>"

definition sample_client ::
  "'w \<Rightarrow> State \<Rightarrow> (nat, nat, 'w, BlockHash \<times> bool, u32, u32 \<times> BlockHash list, BlockHash list) Client" where
  "sample_client w st = \<lparr>shared = \<lparr>node = sample_node w st, block_sink = no_forwarding,
       event_tx = mutex_new True, client_token = False\<rparr>,
     checkpoint = 5, tx_graph = (1, []), shutdown_watcher = True, sent = [], clock = 0\<rparr>"

definition alone :: "('n, 'r, 'w, 'b) others" where
  "alone = (\<lambda>_ sh. sh)"

lemma alone_simp [simp]: "alone i sh = sh"
  by (simp add: alone_def)

theorem revealed_scripts_scanned_witness: "[12] \<in> set [[10 :: u8], [11], [12]]"
proof -
  let ?s = "sample_client () Operational"
  have d: "derive_spks_with_custom_lookahead sample_lib 2 ?s =
      (Inr [[10], [11], [12]] :: (nat, nat) ClientError + bytes list)"
    by (simp add: derive_spks_with_custom_lookahead_def sample_lib_def sample_client_def Let_def
        saturating_add_def)
  have "unbounded_spk_iter sample_lib External (graph_index sample_lib (tx_graph ?s)) =
      Some [(0, [10]), (1, [11]), (2, [12])]"
    and "last_revealed_indices sample_lib (graph_index sample_lib (tx_graph ?s)) External = Some 1"
    by (simp_all add: sample_lib_def sample_client_def)
  from revealed_scripts_scanned [OF d this(1) _ _ this(2), of 2] show ?thesis by simp
qed

theorem last_revealed_script_missed_witness:
  "\<exists>spks. (derive_spks_with_custom_lookahead sample_lib 0 (sample_client () Operational) ::
      (nat, nat) ClientError + bytes list) = Inr spks \<and> [11] \<notin> set spks"
proof -
  have "\<exists>spks. (derive_spks_with_custom_lookahead sample_lib 0 (sample_client () Operational) ::
      (nat, nat) ClientError + bytes list) = Inr spks \<and>
    snd ([(0 :: u32, [10 :: u8]), (1, [11]), (2, [12])] ! unat (1 :: u32)) \<notin> set spks \<and>
    (\<forall>i < unat (1 :: u32). snd ([(0 :: u32, [10 :: u8]), (1, [11]), (2, [12])] ! i) \<in> set spks)"
    by (rule last_revealed_script_missed) (simp_all add: sample_lib_def sample_client_def)
  then show ?thesis by auto
qed

theorem wait_until_ready_justified_witness:
  "state (node (shared (snd (wait_until_ready alone [] (sample_client () Operational) ::
     ((nat, nat) ClientError + unit) option \<times> _)))) = Operational"
proof -
  obtain s' where w: "wait_until_ready alone [] (sample_client () Operational) =
      (Some (Inr ()) :: ((nat, nat) ClientError + unit) option, s')"
    by (auto simp: wait_until_ready_def borrow_state_eq sample_client_def)
  from wait_until_ready_justified [OF w] w show ?thesis by (simp add: justified_def)
qed

text \<open>A node that becomes operational while the client waits.\<close>

definition becomes_ready :: "(nat, nat, unit, 'b) others" where
  "becomes_ready i sh = (if i = Suc 0 then sh\<lparr>node := sample_node () Operational\<rparr> else sh)"

theorem wait_until_ready_returns_witness:
  "fst (wait_until_ready becomes_ready (replicate 1 StateChanged) (sample_client () Active)) =
     (Some (Inr ()) :: ((nat, nat) ClientError + unit) option)"
proof -
  let ?st = "\<lambda>k. state (node (history becomes_ready (clock (sample_client () Active))
      (shared (sample_client () Active)) k))"
  have z: "undecided (?st 0)" and op: "?st (Suc 0) = Operational"
    by (simp_all add: undecided_def sample_client_def becomes_ready_def)
  then have n: "\<not> undecided (?st (Suc 0))" by (simp add: undecided_def)
  have "(LEAST k. \<not> undecided (?st k)) = Suc 0"
    using z n by (intro Least_equality) (auto simp: Suc_le_eq intro: gr0I)
  with n op show ?thesis unfolding wait_until_ready_returns by auto
qed

end
