(* ===== verification/Watch.thy ===== *)
theory Watch
  imports Client
begin

text \<open>
  The watch channels of the node (\<open>state\<close> and \<open>actions\<close> of \<open>src/src/node/mod.rs\<close>) as their
  receivers see them, and the wait of \<open>Client::wait_until_ready\<close> (\<open>src/src/client/mod.rs\<close>) on
  the channel of the states, statement by statement: no change of the state is overlooked between
  its \<open>borrow\<close> and its \<open>changed\<close>.
\<close>

section \<open>The contract of a watch channel\<close>

text \<open>
  What is documented of the runtime's watch channels: a receiver remembers what it has seen, every
  send is a change to a receiver that has not seen it, and looking at the channel, as subscribing
  to it, leaves nothing unseen. \<open>belongs r q\<close> says that \<open>r\<close> is a receiver of \<open>q\<close>.
\<close>

locale watch_channel =
  fixes value_of :: "'q \<Rightarrow> 'a"
    and put :: "'a \<Rightarrow> 'q \<Rightarrow> 'q"
    and unseen :: "'r \<Rightarrow> 'q \<Rightarrow> bool"
    and mark :: "'q \<Rightarrow> 'r"
    and belongs :: "'r \<Rightarrow> 'q \<Rightarrow> bool"
  assumes put_value: "value_of (put a q) = a"
    and put_unseen: "belongs r q \<Longrightarrow> unseen r (put a q)"
    and put_belongs: "belongs r q \<Longrightarrow> belongs r (put a q)"
    and mark_seen: "\<not> unseen (mark q) q"
    and mark_belongs: "belongs (mark q) q"
begin

lemma puts_belong: "belongs r q \<Longrightarrow> belongs r (foldl (\<lambda>q a. put a q) q xs)"
  by (induction xs arbitrary: q) (simp_all add: put_belongs)

text \<open>A receiver with nothing unseen has missed no send.\<close>

lemma nothing_missed:
  assumes "belongs r q" and "\<not> unseen r (foldl (\<lambda>q a. put a q) q xs)"
  shows "xs = []"
proof (rule ccontr)
  assume "xs \<noteq> []"
  then obtain ys y where "xs = ys @ [y]" by (metis rev_exhaust)
  with assms put_unseen [OF puts_belong [OF assms(1)]] show False by simp
qed

lemma unseen_after_mark: "unseen (mark q) (foldl (\<lambda>q a. put a q) q xs) \<longleftrightarrow> xs \<noteq> []"
  using nothing_missed [OF mark_belongs] mark_seen by (cases "xs = []") auto

lemma value_after: "value_of (foldl (\<lambda>q a. put a q) q xs) = last (value_of q # xs)"
  by (induction xs arbitrary: q) (simp_all add: put_value)

end

section \<open>A channel with versions\<close>

text \<open>The channel counts its sends, and a receiver is the count it has seen.\<close>

record 'a watch =
  current :: 'a
  version :: nat

definition watch_new :: "'a \<Rightarrow> 'a watch" where
  "watch_new a = \<lparr>current = a, version = 0\<rparr>"

definition send_replace :: "'a \<Rightarrow> 'a watch \<Rightarrow> 'a watch" where
  "send_replace a w = \<lparr>current = a, version = Suc (version w)\<rparr>"

definition send_if_modified :: "('a \<Rightarrow> ('a \<times> bool) option) \<Rightarrow> 'a watch \<Rightarrow> 'a watch option" where
  "send_if_modified f w =
     (case f (current w) of
        None \<Rightarrow> None
      | Some (a, modified) \<Rightarrow> Some (if modified then send_replace a w else w\<lparr>current := a\<rparr>))"

definition has_changed :: "nat \<Rightarrow> 'a watch \<Rightarrow> bool" where
  "has_changed seen w \<longleftrightarrow> version w \<noteq> seen"

definition subscribe :: "'a watch \<Rightarrow> nat" where
  "subscribe w = version w"

definition borrow_and_update :: "'a watch \<Rightarrow> 'a \<times> nat" where
  "borrow_and_update w = (current w, version w)"

interpretation versioned: watch_channel current send_replace has_changed subscribe "\<lambda>seen w. seen \<le> version w"
  by unfold_locales (auto simp: send_replace_def has_changed_def subscribe_def)

section \<open>The receivers the node hands out\<close>

definition subscribe_state :: "State watch \<Rightarrow> nat" where
  "subscribe_state state_channel = subscribe state_channel"

definition subscribe_action :: "Action set watch \<Rightarrow> nat" where
  "subscribe_action actions_channel = subscribe actions_channel"

section \<open>The wait for the node\<close>

text \<open>
  \<open>borrow\<close> does not mark the value as seen, \<open>changed\<close> does. The polling task changes the state
  by \<open>send_if_modified\<close>, \<open>run\<close> and the shutdown task by \<open>send_replace\<close>.
\<close>

datatype wait_pc = AtBorrow | AtSelect | ReturnedOk | ReturnedUnresponsive | ReturnedAborted

record waiter =
  channel :: "State watch"
  seen :: nat
  wait_at :: wait_pc
  wait_token :: bool

definition wait_begin :: "State watch \<Rightarrow> bool \<Rightarrow> waiter" where
  "wait_begin w tok = \<lparr>channel = w, seen = subscribe_state w, wait_at = AtBorrow, wait_token = tok\<rparr>"

definition wait_borrow :: "waiter \<Rightarrow> waiter" where
  "wait_borrow s = s\<lparr>wait_at :=
     (case current (channel s) of
        Operational \<Rightarrow> ReturnedOk
      | ShuttingDown \<Rightarrow> ReturnedUnresponsive
      | Inactive \<Rightarrow> ReturnedUnresponsive
      | _ \<Rightarrow> AtSelect)\<rparr>"

inductive wait_step :: "bool \<Rightarrow> waiter \<Rightarrow> waiter \<Rightarrow> bool" for oc where
  state_replaced: "wait_step oc s (s\<lparr>channel := send_replace st (channel s)\<rparr>)"
| state_polled: "send_if_modified (status_poll oc (o1 :: (unit, unit, BlockHash) tips)) (channel s) = Some w \<Longrightarrow>
    wait_step oc s (s\<lparr>channel := w\<rparr>)"
| token_cancelled: "wait_step oc s (s\<lparr>wait_token := True\<rparr>)"
| borrows: "wait_at s = AtBorrow \<Longrightarrow> wait_step oc s (wait_borrow s)"
| select_cancelled: "wait_at s = AtSelect \<Longrightarrow> wait_token s \<Longrightarrow> wait_step oc s (s\<lparr>wait_at := ReturnedAborted\<rparr>)"
| select_changed: "wait_at s = AtSelect \<Longrightarrow> has_changed (seen s) (channel s) \<Longrightarrow>
    wait_step oc s (s\<lparr>seen := version (channel s), wait_at := AtBorrow\<rparr>)"

inductive waiting :: "bool \<Rightarrow> waiter \<Rightarrow> bool" for oc where
  wait_starts: "waiting oc (wait_begin w tok)"
| wait_goes_on: "waiting oc s \<Longrightarrow> wait_step oc s t \<Longrightarrow> waiting oc t"

inductive_cases wait_stepE: "wait_step oc s t"

lemma wait_result_final: "wait_step oc s t \<Longrightarrow> wait_at s \<notin> {AtBorrow, AtSelect} \<Longrightarrow> wait_at t = wait_at s"
  by (erule wait_stepE) auto

text \<open>A waiter at its \<open>select!\<close> with nothing unseen has read the state the channel has now.\<close>

definition waiter_ok :: "waiter \<Rightarrow> bool" where
  "waiter_ok s \<longleftrightarrow> seen s \<le> version (channel s) \<and>
     (wait_at s = AtSelect \<longrightarrow> has_changed (seen s) (channel s) \<or> undecided (current (channel s))) \<and>
     (wait_at s = ReturnedAborted \<longrightarrow> wait_token s)"

lemma polled_channel:
  assumes "send_if_modified (status_poll oc o1) w = Some w'"
  shows "w' = w \<or> (\<exists>st. w' = send_replace st w)"
proof -
  from assms obtain t b where p: "status_poll oc o1 (current w) = Some (t, b)"
    and w': "w' = (if b then send_replace t w else w\<lparr>current := t\<rparr>)"
    by (auto simp: send_if_modified_def split: option.splits prod.splits)
  from status_poll_modified [OF p] w' show ?thesis by (cases b) auto
qed

lemma wait_borrow_ok: "waiter_ok s \<Longrightarrow> wait_at s = AtBorrow \<Longrightarrow> waiter_ok (wait_borrow s)"
  by (cases "current (channel s)") (auto simp: waiter_ok_def wait_borrow_def undecided_def)

lemma wait_replaced_ok: "waiter_ok s \<Longrightarrow> waiter_ok (s\<lparr>channel := send_replace st (channel s)\<rparr>)"
  using versioned.put_unseen [of "seen s" "channel s" st] by (auto simp: waiter_ok_def send_replace_def)

lemma wait_step_ok: "wait_step oc s t \<Longrightarrow> waiter_ok s \<Longrightarrow> waiter_ok t"
proof (induction rule: wait_step.induct)
  case (state_polled o1 s w)
  with polled_channel [OF state_polled.hyps] wait_replaced_ok show ?case by auto
qed (auto simp: wait_replaced_ok wait_borrow_ok, auto simp: waiter_ok_def)

lemma waiting_ok: "waiting oc s \<Longrightarrow> waiter_ok s"
proof (induction rule: waiting.induct)
  case (wait_starts w tok)
  show ?case by (simp add: waiter_ok_def wait_begin_def subscribe_state_def subscribe_def)
next
  case (wait_goes_on s t)
  then show ?case by (simp add: wait_step_ok)
qed

text \<open>
  C20. The wait loses no wake-up: whenever the waiting task can be suspended, that is, it is at
  its \<open>select!\<close> and the channel has nothing it has not seen, the node's state is one that is still
  to be waited on. A state that decides the wait leaves the task a step to make, and the step
  after that returns what the state at that moment says.
\<close>

theorem no_lost_wakeup:
  assumes "waiting oc s" and "wait_at s = AtSelect"
  shows "(\<not> has_changed (seen s) (channel s) \<longrightarrow> undecided (current (channel s))) \<and>
    (\<not> undecided (current (channel s)) \<longrightarrow>
      (\<exists>t u. wait_step oc s t \<and> channel t = channel s \<and> wait_step oc t u \<and>
        wait_at u = (if current (channel s) = Operational then ReturnedOk else ReturnedUnresponsive)))"
proof (intro conjI impI)
  from waiting_ok [OF assms(1)] assms(2)
  have h: "has_changed (seen s) (channel s) \<or> undecided (current (channel s))" by (simp add: waiter_ok_def)
  then show "undecided (current (channel s))" if "\<not> has_changed (seen s) (channel s)" using that by blast
  assume d: "\<not> undecided (current (channel s))"
  let ?t = "s\<lparr>seen := version (channel s), wait_at := AtBorrow\<rparr>"
  from h d assms(2) have "wait_step oc s ?t" by (auto intro: wait_step.select_changed)
  moreover have "wait_step oc ?t (wait_borrow ?t)" by (rule wait_step.borrows) simp
  moreover have "wait_at (wait_borrow ?t) =
      (if current (channel s) = Operational then ReturnedOk else ReturnedUnresponsive)"
    using d by (auto simp: wait_borrow_def undecided_def)
  ultimately show "\<exists>t u. wait_step oc s t \<and> channel t = channel s \<and> wait_step oc t u \<and>
      wait_at u = (if current (channel s) = Operational then ReturnedOk else ReturnedUnresponsive)"
    by (intro exI [of _ ?t] exI [of _ "wait_borrow ?t"]) simp
qed

text \<open>The node becomes operational just between the task's \<open>borrow\<close> and its \<open>select!\<close>.\<close>

definition late_waiter :: waiter where
  "late_waiter = (let s = wait_borrow (wait_begin (watch_new Active) False)
     in s\<lparr>channel := send_replace Operational (channel s)\<rparr>)"

theorem no_lost_wakeup_witness:
  "\<exists>t u. wait_step True late_waiter t \<and> wait_step True t u \<and> wait_at u = ReturnedOk"
proof -
  have "waiting True (wait_begin (watch_new Active) False)" by (rule waiting.wait_starts)
  from waiting.wait_goes_on [OF this wait_step.borrows]
  have "waiting True (wait_borrow (wait_begin (watch_new Active) False))" by (simp add: wait_begin_def)
  from waiting.wait_goes_on [OF this wait_step.state_replaced [of _ _ Operational]]
  have w: "waiting True late_waiter" by (simp add: late_waiter_def Let_def)
  have "wait_at late_waiter = AtSelect" and c: "current (channel late_waiter) = Operational"
    by (simp_all add: late_waiter_def Let_def wait_borrow_def wait_begin_def watch_new_def send_replace_def)
  from no_lost_wakeup [OF w this(1)] c show ?thesis by (auto simp: undecided_def)
qed

end
