(* ===== verification/Printers.thy ===== *)
theory Printers
  imports Watch Logger
begin

text \<open>
  The tasks of the examples (\<open>src/examples/client_signet.rs\<close>, \<open>src/examples/client_regtest.rs\<close>)
  that print the node's states and its actions from the node's watch channels. Several sends
  between two looks at a channel count as one change: not every value is printed, but the values
  printed are in order, and a printer that waits has printed the value the channel has now.
\<close>

section \<open>What is printed\<close>

text \<open>One round: the value read and the last line, and the lines printed and the new last line.\<close>

definition show_state :: "State \<Rightarrow> string \<Rightarrow> log \<times> string" where
  "show_state st last_shown = ([(INFO, ''> NODE STATE: '' @ display_State st)], last_shown)"

text \<open>
  The iteration order of the hash set and the derived \<open>Debug\<close> text of an action are parameters.
\<close>

fun join_comma :: "string list \<Rightarrow> string" where
  "join_comma [] = []"
| "join_comma [w] = w"
| "join_comma (w # ws) = w @ '', '' @ join_comma ws"

definition action_line :: "(Action set \<Rightarrow> Action list) \<Rightarrow> (Action \<Rightarrow> string) \<Rightarrow> Action set \<Rightarrow> string" where
  "action_line iter debug A = join_comma (map debug (iter A))"

definition show_actions ::
  "(Action set \<Rightarrow> Action list) \<Rightarrow> (Action \<Rightarrow> string) \<Rightarrow> Action set \<Rightarrow> string \<Rightarrow> log \<times> string" where
  "show_actions iter debug A last_shown =
     (let line = action_line iter debug A
      in if line \<noteq> last_shown then ([(INFO, ''> NODE ACTION: ['' @ line @ '']'')], line) else ([], last_shown))"

definition action_entry :: "string \<Rightarrow> Level \<times> string" where
  "action_entry line = (INFO, ''> NODE ACTION: ['' @ line @ '']'')"

fun show_all :: "('a \<Rightarrow> string \<Rightarrow> log \<times> string) \<Rightarrow> 'a list \<Rightarrow> string \<Rightarrow> log \<times> string" where
  "show_all show_one [] ln = ([], ln)"
| "show_all show_one (a # as) ln =
     (let (l, ln1) = show_one a ln; (l', ln2) = show_all show_one as ln1 in (l @ l', ln2))"

lemma show_all_append:
  "show_all f (xs @ ys) ln =
    (let (l, ln1) = show_all f xs ln; (l', ln2) = show_all f ys ln1 in (l @ l', ln2))"
  by (induction xs arbitrary: ln) (simp_all add: case_prod_beta Let_def)

text \<open>The states printed are all that were read; of the actions a line is printed when it changes.\<close>

lemma show_all_states:
  "show_all show_state sts ln = (map (\<lambda>st. (INFO, ''> NODE STATE: '' @ display_State st)) sts, ln)"
  by (induction sts arbitrary: ln) (simp_all add: show_state_def)

lemma remdups_adj_tl: "tl (remdups_adj (x # x # xs)) = tl (remdups_adj (x # xs))"
  "x \<noteq> y \<Longrightarrow> tl (remdups_adj (x # y # xs)) = remdups_adj (y # xs)"
  by simp_all

lemma show_actions_eq:
  "show_actions iter debug A ln =
    (if action_line iter debug A = ln then [] else [action_entry (action_line iter debug A)], action_line iter debug A)"
  by (simp add: show_actions_def Let_def action_entry_def)

lemma show_all_actions:
  "fst (show_all (show_actions iter debug) As ln) =
    map action_entry (tl (remdups_adj (ln # map (action_line iter debug) As)))"
proof (induction As arbitrary: ln)
  case (Cons A As)
  let ?line = "action_line iter debug A"
  have "map action_entry (remdups_adj (?line # xs)) = action_entry ?line # map action_entry (tl (remdups_adj (?line # xs)))"
    for xs by (metis list.simps(9) remdups_adj_Cons_alt)
  with Cons.IH [of ?line] show ?case
    by (cases "?line = ln")
      (auto simp: show_actions_eq case_prod_beta Let_def remdups_adj_tl simp del: remdups_adj.simps)
qed simp

section \<open>The loop over the channel\<close>

datatype printer_pc = AtPrint | AtChanged | PrinterDone

text \<open>\<open>history\<close> is every value the channel has had, and \<open>shown\<close> every value the loop has read.\<close>

record 'a printer =
  source :: "'a watch"
  senders_gone :: bool
  seen_version :: nat
  last_line :: string
  printed :: log
  printer_at :: printer_pc
  history :: "'a list"
  shown :: "'a list"

definition printer_start :: "'a watch \<Rightarrow> 'a printer" where
  "printer_start w = \<lparr>source = w, senders_gone = False, seen_version = subscribe w, last_line = [],
     printed = [], printer_at = AtPrint, history = [current w], shown = []\<rparr>"

definition print_round :: "('a \<Rightarrow> string \<Rightarrow> log \<times> string) \<Rightarrow> 'a printer \<Rightarrow> 'a printer" where
  "print_round show_one s =
     (let (a, v) = borrow_and_update (source s); (l, ln) = show_one a (last_line s)
      in s\<lparr>seen_version := v, printed := printed s @ l, last_line := ln, printer_at := AtChanged,
           shown := shown s @ [a]\<rparr>)"

inductive printer_step :: "('a \<Rightarrow> string \<Rightarrow> log \<times> string) \<Rightarrow> 'a printer \<Rightarrow> 'a printer \<Rightarrow> bool"
  for show_one where
  value_sent: "\<not> senders_gone s \<Longrightarrow>
    printer_step show_one s (s\<lparr>source := send_replace a (source s), history := history s @ [a]\<rparr>)"
| senders_drop: "printer_step show_one s (s\<lparr>senders_gone := True\<rparr>)"
| prints: "printer_at s = AtPrint \<Longrightarrow> printer_step show_one s (print_round show_one s)"
| changed_ok: "printer_at s = AtChanged \<Longrightarrow> has_changed (seen_version s) (source s) \<Longrightarrow>
    printer_step show_one s (s\<lparr>seen_version := version (source s), printer_at := AtPrint\<rparr>)"
| changed_err: "printer_at s = AtChanged \<Longrightarrow> \<not> has_changed (seen_version s) (source s) \<Longrightarrow> senders_gone s \<Longrightarrow>
    printer_step show_one s (s\<lparr>printer_at := PrinterDone\<rparr>)"

inductive printing :: "('a \<Rightarrow> string \<Rightarrow> log \<times> string) \<Rightarrow> 'a printer \<Rightarrow> bool" for show_one where
  printing_starts: "printing show_one (printer_start w)"
| printing_goes_on: "printing show_one s \<Longrightarrow> printer_step show_one s t \<Longrightarrow> printing show_one t"

definition printer_ok :: "('a \<Rightarrow> string \<Rightarrow> log \<times> string) \<Rightarrow> 'a printer \<Rightarrow> bool" where
  "printer_ok show_one s \<longleftrightarrow>
     seen_version s \<le> version (source s) \<and> history s \<noteq> [] \<and> last (history s) = current (source s) \<and>
     show_all show_one (shown s) [] = (printed s, last_line s) \<and>
     (printer_at s = AtPrint \<or> has_changed (seen_version s) (source s) \<longrightarrow> subseq (shown s) (butlast (history s))) \<and>
     (printer_at s \<noteq> AtPrint \<and> \<not> has_changed (seen_version s) (source s) \<longrightarrow>
        (\<exists>vs. shown s = vs @ [current (source s)]) \<and> subseq (shown s) (history s)) \<and>
     (printer_at s = PrinterDone \<longrightarrow> senders_gone s \<and> \<not> has_changed (seen_version s) (source s))"

lemma subseq_of_butlast: "subseq xs (butlast ys) \<Longrightarrow> subseq xs ys"
  by (meson sublist_butlast sublist_imp_subseq subseq_order.order_trans)

lemma print_round_ok:
  assumes "printer_ok show_one s" and "printer_at s = AtPrint"
  shows "printer_ok show_one (print_round show_one s)"
proof -
  obtain l ln where l: "show_one (current (source s)) (last_line s) = (l, ln)" by force
  from assms have "subseq (shown s @ [last (history s)]) (butlast (history s) @ [last (history s)])"
    by (simp add: printer_ok_def subseq_append)
  moreover from assms(1) have "history s \<noteq> []" and "last (history s) = current (source s)"
    by (simp_all add: printer_ok_def)
  ultimately have "subseq (shown s @ [current (source s)]) (history s)" by (metis append_butlast_last_id)
  with assms l show ?thesis
    by (simp add: printer_ok_def print_round_def borrow_and_update_def show_all_append has_changed_def)
qed

lemma value_sent_ok:
  assumes "printer_ok show_one s" and "\<not> senders_gone s"
  shows "printer_ok show_one (s\<lparr>source := send_replace a (source s), history := history s @ [a]\<rparr>)"
proof -
  from assms(1) have le: "seen_version s \<le> version (source s)" by (simp add: printer_ok_def)
  note new = versioned.put_unseen [OF le, of a]
  from assms(1) have "subseq (shown s) (history s)"
    by (cases "printer_at s = AtPrint \<or> has_changed (seen_version s) (source s)")
      (auto simp: printer_ok_def dest: subseq_of_butlast)
  with assms new le show ?thesis by (auto simp: printer_ok_def send_replace_def)
qed

lemma printer_step_ok: "printer_step show_one s t \<Longrightarrow> printer_ok show_one s \<Longrightarrow> printer_ok show_one t"
proof (induction rule: printer_step.induct)
  case (changed_ok s)
  then show ?case by (simp add: printer_ok_def has_changed_def)
qed (auto simp: value_sent_ok print_round_ok, auto simp: printer_ok_def)

lemma printing_ok: "printing show_one s \<Longrightarrow> printer_ok show_one s"
proof (induction rule: printing.induct)
  case (printing_starts w)
  show ?case by (simp add: printer_ok_def printer_start_def subscribe_def has_changed_def)
qed (simp add: printer_step_ok)

text \<open>
  In every interleaving of the printers with the sends: the state printer has printed every
  state it has read, which are some of those the channel had, in order; the action printer has
  printed their lines without the repetitions; and a printer that waits with nothing unseen, or
  has ended since the node is gone, has printed what the channel has now.
\<close>

theorem printers_show_current:
  assumes "printing show_state s" and "printing (show_actions iter debug) t"
  shows "printed s = map (\<lambda>st. (INFO, ''> NODE STATE: '' @ display_State st)) (shown s) \<and>
    printed t = map action_entry (tl (remdups_adj ([] # map (action_line iter debug) (shown t)))) \<and>
    (printer_at s = PrinterDone \<or> printer_at s = AtChanged \<and> \<not> has_changed (seen_version s) (source s) \<longrightarrow>
      subseq (shown s) (history s) \<and> (\<exists>sts. shown s = sts @ [current (source s)])) \<and>
    (printer_at t = PrinterDone \<or> printer_at t = AtChanged \<and> \<not> has_changed (seen_version t) (source t) \<longrightarrow>
      subseq (shown t) (history t) \<and> last_line t = action_line iter debug (current (source t)))"
proof -
  from printing_ok [OF assms(1)] have s: "printer_ok show_state s" .
  from printing_ok [OF assms(2)] have t: "printer_ok (show_actions iter debug) t" .
  have "printed s = fst (show_all show_state (shown s) [])"
    using s by (simp add: printer_ok_def)
  moreover have "printed t = fst (show_all (show_actions iter debug) (shown t) [])"
    using t by (simp add: printer_ok_def)
  moreover have "last_line t = action_line iter debug A" if "shown t = As @ [A]" for As A
    using t that by (simp add: printer_ok_def show_all_append show_actions_eq case_prod_beta Let_def)
  ultimately show ?thesis
    using s t by (auto simp: show_all_states show_all_actions printer_ok_def)
qed

text \<open>Two sends between two looks: the first value is overwritten before it is read.\<close>

definition state_run :: "State printer" where
  "state_run =
     (let s0 = print_round show_state (printer_start (watch_new Inactive));
          s1 = s0\<lparr>source := send_replace Active (source s0), history := history s0 @ [Active]\<rparr>;
          s2 = s1\<lparr>source := send_replace Operational (source s1), history := history s1 @ [Operational]\<rparr>;
          s3 = s2\<lparr>seen_version := version (source s2), printer_at := AtPrint\<rparr>
      in print_round show_state s3)"

lemma state_run_printing: "printing show_state state_run"
  unfolding state_run_def Let_def
  by (intro printing_goes_on [OF _ prints] printing_goes_on [OF _ changed_ok] printing_goes_on [OF _ value_sent]
      printing_starts)
    (simp_all add: print_round_def printer_start_def borrow_and_update_def has_changed_def send_replace_def
      show_state_def watch_new_def)

theorem printers_show_current_witness:
  "printed state_run = [(INFO, ''> NODE STATE: '' @ display_State Inactive),
     (INFO, ''> NODE STATE: '' @ display_State Operational)]"
proof -
  have "printing (show_actions (\<lambda>_. []) (\<lambda>_. [])) (printer_start (watch_new {}))" by (rule printing_starts)
  from printers_show_current [OF state_run_printing this]
  have "printed state_run = map (\<lambda>st. (INFO, ''> NODE STATE: '' @ display_State st)) (shown state_run)" by blast
  then show ?thesis
    by (simp add: state_run_def Let_def print_round_def printer_start_def borrow_and_update_def
        send_replace_def show_state_def watch_new_def)
qed

end
