(* ===== verification/Scan.thy ===== *)
theory Scan
  imports Client
begin

text \<open>
  One scan of the client of \<open>src/src/client/mod.rs\<close>: \<open>Client::scan_inner\<close> and
  \<open>Client::scan\<close>. The node is asked for the blocks whose filters match the wallet's scripts, the
  relevant ones are applied to the transaction graph, and each of them is published as an
  update; the scan ends with a checkpoint at the height it scanned to.
\<close>

text \<open>What the node's methods ask of the libraries behind them.\<close>

record ('x, 'w, 'b) node_lib =
  filters_get_height :: "'w \<Rightarrow> 'x + u32"
  match_any :: "bytes list \<Rightarrow> u32 option \<Rightarrow> u32 option \<Rightarrow> 'w \<Rightarrow> 'x + BlockHash list"
  handle_get_block :: "nat \<Rightarrow> BlockHash \<Rightarrow> 'w \<Rightarrow> 'x + 'b option"
  try_join_all :: "('x NodeError + 'b) list \<Rightarrow> 'x NodeError + 'b list"
  chain_get_block_height :: "BlockHash \<Rightarrow> 'w \<Rightarrow> 'x + u32 option"
  chain_get_block_hash :: "u32 \<Rightarrow> 'w \<Rightarrow> 'x + BlockHash"

section \<open>The scan\<close>

fun scan_plan ::
  "('b, 'c, 'g, 'i, 't) wallet_lib \<Rightarrow> ScanKind \<Rightarrow> ('n, 'r, 'w, 'b, 'c, 'g, 't) Client \<Rightarrow>
   ('x, 'n) ClientError + u32 \<times> bytes list" where
  "scan_plan wl Sync s =
     and_then (derive_spks wl s) (\<lambda>spks. Inr (cp_height wl (checkpoint s), spks))"
| "scan_plan wl (FullScan custom_lookahead) s =
     and_then (derive_spks_with_custom_lookahead wl (unwrap_or FULL_SCAN_LOOKAHEAD custom_lookahead) s)
       (\<lambda>spks. Inr (0, spks))"
| "scan_plan wl (Custom start_height custom_lookahead) s =
     and_then (derive_spks_with_custom_lookahead wl custom_lookahead s)
       (\<lambda>spks. Inr (start_height, spks))"

text \<open>
  The biased \<open>select!\<close> polls the cancellation first. The first poll of the other branch runs
  \<open>fetch_blocks\<close> to its await; when the task is woken again and finds the token cancelled, the
  suspended call is dropped where it stands.
\<close>

definition select_fetch ::
  "('x, 'w, 'b) node_lib \<Rightarrow> ('n, 'r, 'w, 'b) others \<Rightarrow> BlockHash list \<Rightarrow>
   ('n, 'r, 'w, 'b, 'c, 'g, 't, 'x, 'b list) client_comp" where
  "select_fetch nl env hashes =
     bindE (check_cancelled env) (\<lambda>_.
     bindE (on_node env (\<lambda>n. (Inr (), fetch_blocks_begin hashes n))) (\<lambda>_.
     bindE (check_cancelled env) (\<lambda>_.
     on_node env (fetch_blocks_end (try_join_all nl) (handle_get_block nl) hashes))))"

text \<open>One round of the loop over the fetched blocks.\<close>

definition process_block ::
  "('b, 'c, 'g, 'i, 't) wallet_lib \<Rightarrow> ('x, 'w, 'b) node_lib \<Rightarrow> ('n, 'r, 'w, 'b) others \<Rightarrow> 'b \<Rightarrow>
   ('n, 'r, 'w, 'b, 'c, 'g, 't, 'x, unit) client_comp" where
  "process_block wl nl env block =
     bindE (check_cancelled env) (\<lambda>_.
     let hash = block_hash wl block in
     bindE (ask_node env (get_block_height (chain_get_block_height nl) hash)) (\<lambda>height.
     bindE (\<lambda>s. let (empty_changeset, g) = apply_block_relevant wl block height (tx_graph s)
                in (Inr empty_changeset, s\<lparr>tx_graph := g\<rparr>)) (\<lambda>empty_changeset.
     if empty_changeset then returnE () else publish wl env (height, hash))))"

fun process_blocks ::
  "('b, 'c, 'g, 'i, 't) wallet_lib \<Rightarrow> ('x, 'w, 'b) node_lib \<Rightarrow> ('n, 'r, 'w, 'b) others \<Rightarrow>
   'b list \<Rightarrow> ('n, 'r, 'w, 'b, 'c, 'g, 't, 'x, unit) client_comp" where
  "process_blocks wl nl env [] = returnE ()"
| "process_blocks wl nl env (block # blocks) =
     bindE (process_block wl nl env block) (\<lambda>_. process_blocks wl nl env blocks)"

definition final_checkpoint ::
  "('b, 'c, 'g, 'i, 't) wallet_lib \<Rightarrow> ('x, 'w, 'b) node_lib \<Rightarrow> ('n, 'r, 'w, 'b) others \<Rightarrow> u32 \<Rightarrow>
   ('n, 'r, 'w, 'b, 'c, 'g, 't, 'x, unit) client_comp" where
  "final_checkpoint wl nl env stop_height =
     bindE (getE (\<lambda>s. Inr (cp_height wl (checkpoint s) < stop_height))) (\<lambda>below.
     if below
     then bindE (ask_node env (get_block_hash (chain_get_block_hash nl) stop_height)) (\<lambda>stop_hash.
          publish wl env (stop_height, stop_hash))
     else returnE ())"

definition scan_inner ::
  "('b, 'c, 'g, 'i, 't) wallet_lib \<Rightarrow> ('x, 'w, 'b) node_lib \<Rightarrow> ('n, 'r, 'w, 'b) others \<Rightarrow> ScanKind \<Rightarrow>
   ('n, 'r, 'w, 'b, 'c, 'g, 't, 'x, unit) client_comp" where
  "scan_inner wl nl env kind =
     bindE (getE (scan_plan wl kind)) (\<lambda>(start_height, spks).
     bindE (ask_node env (get_filter_height (filters_get_height nl))) (\<lambda>stop_height.
     if start_height > stop_height then throwE (InvalidRange start_height stop_height)
     else
       bindE (check_cancelled env) (\<lambda>_.
       bindE (on_node env (match_filters (filters_get_height nl) (match_any nl) spks start_height stop_height))
         (\<lambda>hashes.
       bindE (check_cancelled env) (\<lambda>_.
       bindE (if hashes = [] then returnE [] else select_fetch nl env hashes) (\<lambda>blocks.
       bindE (process_blocks wl nl env blocks) (\<lambda>_.
       final_checkpoint wl nl env stop_height)))))))"

text \<open>\<open>errtext e\<close> is the text of an error, its \<open>Display\<close>.\<close>

definition scan_end ::
  "(('x, 'n) ClientError \<Rightarrow> string) \<Rightarrow> bool \<Rightarrow> ('x, 'n) ClientError + unit \<Rightarrow> ('t, 'c) ScanEvent" where
  "scan_end errtext keep_going scan_result =
     (case scan_result of Inr _ \<Rightarrow> ScanFinished keep_going | Inl e \<Rightarrow> ScanError (errtext e))"

definition scan_and_report ::
  "(('x, 'n) ClientError \<Rightarrow> string) \<Rightarrow> ('b, 'c, 'g, 'i, 't) wallet_lib \<Rightarrow> ('x, 'w, 'b) node_lib \<Rightarrow>
   ('n, 'r, 'w, 'b) others \<Rightarrow> bool \<Rightarrow> ScanKind \<Rightarrow> ('n, 'r, 'w, 'b, 'c, 'g, 't, 'x, unit) client_comp" where
  "scan_and_report errtext wl nl env keep_going scan_params = (\<lambda>s.
     let (scan_result, s1) = scan_inner wl nl env scan_params s;
         event = scan_end errtext keep_going scan_result
     in bindE (send_event env event) (\<lambda>_. liftE scan_result) s1)"

definition scan ::
  "(('x, 'n) ClientError \<Rightarrow> string) \<Rightarrow> ('b, 'c, 'g, 'i, 't) wallet_lib \<Rightarrow> ('x, 'w, 'b) node_lib \<Rightarrow>
   ('n, 'r, 'w, 'b) others \<Rightarrow> wake list \<Rightarrow> ScanKind \<Rightarrow> ('n, 'r, 'w, 'b, 'c, 'g, 't) Client \<Rightarrow>
   (('x, 'n) ClientError + unit) option \<times> ('n, 'r, 'w, 'b, 'c, 'g, 't) Client" where
  "scan errtext wl nl env ws scan_params s =
     (case wait_until_ready env ws s of
        (None, s1) \<Rightarrow> (None, s1)
      | (Some (Inl e), s1) \<Rightarrow> (Some (Inl e), s1)
      | (Some (Inr _), s1) \<Rightarrow>
          (let (r, s2) = scan_and_report errtext wl nl env False scan_params s1 in (Some r, s2)))"

section \<open>What is published\<close>

text \<open>The other tasks leave the event sender in its slot: the node is not shut down.\<close>

definition sender_kept :: "('n, 'r, 'w, 'b) others \<Rightarrow> bool" where
  "sender_kept env \<longleftrightarrow> (\<forall>i sh. event_tx (env i sh) = event_tx sh)"

definition channel_open :: "('n, 'r, 'w, 'b, 'c, 'g, 't) Client \<Rightarrow> bool" where
  "channel_open s \<longleftrightarrow> event_tx (shared s) = mutex_new True"

text \<open>
  What applying blocks at their heights means, without the node, the channel or cancellation:
  the checkpoint and graph at the end, and the updates in between.
\<close>

definition update_at :: "('b, 'c, 'g, 'i, 't) wallet_lib \<Rightarrow> 'c \<Rightarrow> 'g \<Rightarrow> ('t, 'c) Update" where
  "update_at wl c g =
     \<lparr>tx_update = graph_update wl g, last_active_indices = last_used_indices wl (graph_index wl g),
      chain = Some c\<rparr>"

fun apply_blocks ::
  "('b, 'c, 'g, 'i, 't) wallet_lib \<Rightarrow> ('b \<times> u32) list \<Rightarrow> 'c \<times> 'g \<Rightarrow> ('c \<times> 'g) \<times> ('t, 'c) Update list" where
  "apply_blocks wl [] (c, g) = ((c, g), [])"
| "apply_blocks wl ((b, h) # bhs) (c, g) =
     (let (irrelevant, g1) = apply_block_relevant wl b h g in
      if irrelevant then apply_blocks wl bhs (c, g1)
      else
        let c1 = cp_insert wl c (h, block_hash wl b);
            (cg, us) = apply_blocks wl bhs (c1, graph_new wl (graph_index wl g1))
        in (cg, update_at wl c1 g1 # us))"

lemma apply_blocks_append:
  "apply_blocks wl (xs @ ys) cg =
     (let (cg1, us) = apply_blocks wl xs cg; (cg2, vs) = apply_blocks wl ys cg1 in (cg2, us @ vs))"
  by (induction wl xs cg rule: apply_blocks.induct) (auto simp: Let_def split: prod.splits)

lemma apply_blocks_last:
  "apply_blocks wl bhs cg = ((c', g'), us) \<Longrightarrow>
     (if us = [] then c' = fst cg else chain (last us) = Some c')"
proof (induction wl bhs cg arbitrary: us rule: apply_blocks.induct)
  case (1 wl c g)
  then show ?case by simp
next
  case (2 wl b h bhs c g)
  then show ?case
    by (auto simp: Let_def update_at_def split: prod.splits if_splits)
qed

text \<open>The state of the client's own fields, as the account above has it.\<close>

definition position :: "('n, 'r, 'w, 'b, 'c, 'g, 't) Client \<Rightarrow> 'c \<times> 'g" where
  "position s = (checkpoint s, tx_graph s)"

lemma position_frame [simp]:
  "position (s\<lparr>shared := sh\<rparr>) = position s" "position (s\<lparr>clock := k\<rparr>) = position s"
  "position (s\<lparr>sent := es\<rparr>) = position s"
  by (simp_all add: position_def)

lemma own_position: "own s' = own s \<Longrightarrow> position s' = position s \<and> sent s' = sent s"
  by (simp add: own_def position_def)

lemma channel_open_frame:
  "sender_kept env \<Longrightarrow> channel_open s \<Longrightarrow> event_tx (env i (shared s)) = mutex_new True"
  by (simp add: sender_kept_def channel_open_def)

lemma on_node_open:
  "on_node env f s = (r, s') \<Longrightarrow> sender_kept env \<Longrightarrow> channel_open s \<Longrightarrow> channel_open s'"
  by (auto simp: on_node_eq channel_open_frame channel_open_def sender_kept_def)

lemma ask_node_open:
  "ask_node env f s = (r, s') \<Longrightarrow> sender_kept env \<Longrightarrow> channel_open s \<Longrightarrow> channel_open s'"
  unfolding ask_node_def by (rule on_node_open)

lemma check_cancelled_open:
  "check_cancelled env s = (r, s') \<Longrightarrow> sender_kept env \<Longrightarrow> channel_open s \<Longrightarrow> channel_open s'"
  by (auto simp: check_cancelled_eq channel_open_def sender_kept_def)

lemmas open_keeps = on_node_open ask_node_open check_cancelled_open

lemma send_event_open:
  assumes "sender_kept env" and "channel_open s"
  shows "send_event env e s = (Inr (), s\<lparr>shared := env (clock s) (shared s),
      clock := Suc (clock s), sent := sent s @ [e]\<rparr>)"
  using channel_open_frame [OF assms, of "clock s"]
  by (simp add: send_event_def bindE_def lock_event_tx_eq)

lemma publish_eq:
  "publish wl env b s =
     send_event env (WalletUpdate (update_at wl (cp_insert wl (checkpoint s) b) (tx_graph s)))
       (s\<lparr>checkpoint := cp_insert wl (checkpoint s) b,
          tx_graph := graph_new wl (graph_index wl (tx_graph s))\<rparr>)"
  by (simp add: publish_def bindE_def finish_update_def Let_def update_at_def)

lemma channel_open_simps [simp]:
  "channel_open (s\<lparr>checkpoint := c\<rparr>) = channel_open s" "channel_open (s\<lparr>tx_graph := g\<rparr>) = channel_open s"
  "channel_open (s\<lparr>sent := es\<rparr>) = channel_open s" "channel_open (s\<lparr>clock := k\<rparr>) = channel_open s"
  by (simp_all add: channel_open_def)

lemma channel_open_shared [simp]:
  "sender_kept env \<Longrightarrow> channel_open s \<Longrightarrow> channel_open (s\<lparr>shared := env i (shared s)\<rparr>)"
  by (simp add: channel_open_def sender_kept_def)

lemma publish_open:
  assumes "sender_kept env" and "channel_open s" and "publish wl env b s = (r, s')"
  shows "r = Inr ()" and "channel_open s'"
    and "position s' = (cp_insert wl (checkpoint s) b, graph_new wl (graph_index wl (tx_graph s)))"
    and "sent s' = sent s @ [WalletUpdate (update_at wl (cp_insert wl (checkpoint s) b) (tx_graph s))]"
  using assms channel_open_frame [OF assms(1,2)]
  by (auto simp: publish_eq send_event_open position_def channel_open_def)

text \<open>One block: it is applied and published, or passed over, or the round fails before it.\<close>

definition known_heights :: "('b, 'c, 'g, 'i, 't) wallet_lib \<Rightarrow> ('x, 'w, 'b) node_lib \<Rightarrow> ('b \<times> u32) list \<Rightarrow> bool" where
  "known_heights wl nl bhs \<longleftrightarrow>
     (\<forall>(b, h) \<in> set bhs. \<exists>w. chain_get_block_height nl (block_hash wl b) w = Inr (Some h))"

lemma known_heights_simps [simp]:
  "known_heights wl nl []"
  "known_heights wl nl (xs @ ys) \<longleftrightarrow> known_heights wl nl xs \<and> known_heights wl nl ys"
  by (simp_all add: known_heights_def ball_Un)

text \<open>What a computation published: the blocks it applied, and the updates it sent.\<close>

definition published ::
  "('b, 'c, 'g, 'i, 't) wallet_lib \<Rightarrow> ('b \<times> u32) list \<Rightarrow>
   ('n, 'r, 'w, 'b, 'c, 'g, 't) Client \<Rightarrow> ('n, 'r, 'w, 'b, 'c, 'g, 't) Client \<Rightarrow> bool" where
  "published wl bhs s s' \<longleftrightarrow>
     position s' = fst (apply_blocks wl bhs (position s)) \<and>
     sent s' = sent s @ map WalletUpdate (snd (apply_blocks wl bhs (position s)))"

lemma published_Nil [simp]: "published wl [] s s' \<longleftrightarrow> position s' = position s \<and> sent s' = sent s"
  by (cases "position s") (simp add: published_def)

lemma published_trans:
  "published wl xs s t \<Longrightarrow> published wl ys t u \<Longrightarrow> published wl (xs @ ys) s u"
  by (auto simp: published_def apply_blocks_append Let_def split: prod.splits)

lemma process_block_published:
  assumes "sender_kept env" and "channel_open s" and "process_block wl nl env b s = (r, s')"
  shows "channel_open s' \<and>
    ((\<exists>e. r = Inl e \<and> published wl [] s s') \<or>
     (\<exists>h. r = Inr () \<and> known_heights wl nl [(b, h)] \<and> published wl [(b, h)] s s'))"
proof -
  let ?hash = "block_hash wl b"
  let ?ask = "ask_node env (get_block_height (chain_get_block_height nl) ?hash)"
  show ?thesis
  proof (cases rule: bindE_cases [of "check_cancelled env" s "\<lambda>_. bindE ?ask (\<lambda>height.
      bindE (\<lambda>s. let (e, g) = apply_block_relevant wl b height (tx_graph s) in (Inr e, s\<lparr>tx_graph := g\<rparr>)) (\<lambda>e.
      if e then returnE () else publish wl env (height, ?hash)))"])
    case (Err e s1)
    with assms check_cancelled_own [OF Err(1)] check_cancelled_open [OF Err(1) assms(1,2)] show ?thesis
      by (auto simp: process_block_def Let_def dest!: own_position)
  next
    case (Ok x s1)
    note o1 = check_cancelled_open [OF Ok(1) assms(1,2)]
    note p1 = own_position [OF check_cancelled_own [OF Ok(1)]]
    obtain q s2 where ask: "?ask s1 = (q, s2)" by force
    note o2 = ask_node_open [OF ask assms(1) o1]
    note p2 = own_position [OF ask_node_own [OF ask]]
    show ?thesis
    proof (cases q)
      case (Inl e)
      with Ok ask assms(3) o2 p1 p2 show ?thesis by (auto simp: process_block_def Let_def)
    next
      case (Inr h)
      have known: "known_heights wl nl [(b, h)]"
        using ask Inr by (auto simp: ask_node_eq get_block_height_def known_heights_def)
      obtain e g where app: "apply_block_relevant wl b h (tx_graph s2) = (e, g)" by force
      from Ok ask Inr app assms(3) have rest:
        "(if e then returnE () else publish wl env (h, ?hash)) (s2\<lparr>tx_graph := g\<rparr>) = (r, s')"
        by (simp add: process_block_def Let_def bindE_def)
      show ?thesis
      proof (cases e)
        case True
        with rest o2 known app p1 p2 show ?thesis
          by (auto simp: published_def position_def)
      next
        case False
        with rest have pub: "publish wl env (h, ?hash) (s2\<lparr>tx_graph := g\<rparr>) = (r, s')" by simp
        from o2 have "channel_open (s2\<lparr>tx_graph := g\<rparr>)" by simp
        from publish_open [OF assms(1) this pub] False app p1 p2
        have "r = Inr ()" "channel_open s'" "published wl [(b, h)] s s'"
          by (auto simp: published_def position_def Let_def)
        with known show ?thesis by blast
      qed
    qed
  qed
qed

lemma process_blocks_account:
  assumes "sender_kept env" and "channel_open s" and "process_blocks wl nl env blocks s = (r, s')"
  shows "channel_open s' \<and> (\<exists>bhs. published wl bhs s s' \<and> known_heights wl nl bhs \<and>
    prefix (map fst bhs) blocks \<and> (r = Inr () \<longrightarrow> map fst bhs = blocks))"
  using assms(2,3)
proof (induction blocks arbitrary: s)
  case Nil
  then show ?case by (auto intro!: exI [of _ "[]"])
next
  case (Cons b blocks)
  show ?case
  proof (cases rule: bindE_cases [of "process_block wl nl env b" s "\<lambda>_. process_blocks wl nl env blocks"])
    case (Err e s1)
    with Cons.prems process_block_published [OF assms(1) Cons.prems(1) Err(1)] show ?thesis
      by (auto intro!: exI [of _ "[]"])
  next
    case (Ok x s1)
    from process_block_published [OF assms(1) Cons.prems(1) Ok(1)] obtain h where
      o1: "channel_open s1" and k: "known_heights wl nl [(b, h)]" and p: "published wl [(b, h)] s s1"
      by auto
    from Ok Cons.prems(2) have "process_blocks wl nl env blocks s1 = (r, s')" by simp
    from Cons.IH [OF o1 this] obtain bhs where o': "channel_open s'" and
      ih: "published wl bhs s1 s'" "known_heights wl nl bhs" "prefix (map fst bhs) blocks"
        "r = Inr () \<longrightarrow> map fst bhs = blocks"
      by auto
    have "published wl ((b, h) # bhs) s s'" using published_trans [OF p ih(1)] by simp
    moreover have "known_heights wl nl ((b, h) # bhs)"
      using k ih(2) by (simp add: known_heights_def)
    moreover have "prefix (map fst ((b, h) # bhs)) (b # blocks)" using ih(3) by simp
    moreover have "r = Inr () \<longrightarrow> map fst ((b, h) # bhs) = b # blocks" using ih(4) by simp
    ultimately have "\<exists>bhs'. published wl bhs' s s' \<and> known_heights wl nl bhs' \<and>
        prefix (map fst bhs') (b # blocks) \<and> (r = Inr () \<longrightarrow> map fst bhs' = b # blocks)"
      by (intro exI [of _ "(b, h) # bhs"] conjI)
    with o' show ?thesis by blast
  qed
qed

section \<open>The whole scan\<close>


text \<open>The part of a scan before the blocks are applied: only the node is touched.\<close>

definition find_blocks ::
  "('b, 'c, 'g, 'i, 't) wallet_lib \<Rightarrow> ('x, 'w, 'b) node_lib \<Rightarrow> ('n, 'r, 'w, 'b) others \<Rightarrow> ScanKind \<Rightarrow>
   ('n, 'r, 'w, 'b, 'c, 'g, 't, 'x, u32 \<times> 'b list) client_comp" where
  "find_blocks wl nl env kind =
     bindE (getE (scan_plan wl kind)) (\<lambda>(start_height, spks).
     bindE (ask_node env (get_filter_height (filters_get_height nl))) (\<lambda>stop_height.
     if start_height > stop_height then throwE (InvalidRange start_height stop_height)
     else
       bindE (check_cancelled env) (\<lambda>_.
       bindE (on_node env (match_filters (filters_get_height nl) (match_any nl) spks start_height stop_height))
         (\<lambda>hashes.
       bindE (check_cancelled env) (\<lambda>_.
       bindE (if hashes = [] then returnE [] else select_fetch nl env hashes) (\<lambda>blocks.
       returnE (stop_height, blocks)))))))"

lemma bindE_assoc: "bindE (bindE m f) g = bindE m (\<lambda>x. bindE (f x) g)"
  by (rule ext) (simp add: bindE_def split: prod.splits sum.splits)

lemma bindE_if: "bindE (if b then m else m') g = (if b then bindE m g else bindE m' g)"
  by simp

lemma bindE_throw: "bindE (throwE e) g = throwE e"
  by (rule ext) (simp add: bindE_def)

lemma bindE_return: "bindE (returnE x) g = g x"
  by (rule ext) (simp add: bindE_def)

lemma bindE_case_prod: "bindE (case p of (x, y) \<Rightarrow> f x y) g = (case p of (x, y) \<Rightarrow> bindE (f x y) g)"
  by (cases p) simp

lemma scan_inner_split:
  "scan_inner wl nl env kind =
     bindE (find_blocks wl nl env kind) (\<lambda>(stop_height, blocks).
     bindE (process_blocks wl nl env blocks) (\<lambda>_. final_checkpoint wl nl env stop_height))"
  unfolding scan_inner_def find_blocks_def
  by (simp only: bindE_assoc bindE_if bindE_throw bindE_return bindE_case_prod prod.case)

text \<open>A computation that leaves the client's own fields, and the sender, as they are.\<close>

definition shared_only ::
  "('n, 'r, 'w, 'b) others \<Rightarrow> ('n, 'r, 'w, 'b, 'c, 'g, 't, 'x, 'a) client_comp \<Rightarrow> bool" where
  "shared_only env m \<longleftrightarrow> keeps (\<lambda>s s'.
     own s' = own s \<and> (sender_kept env \<longrightarrow> channel_open s \<longrightarrow> channel_open s')) m"

lemma shared_onlyD:
  assumes "shared_only env m" and "m s = (r, s')"
  shows "own s' = own s" and "sender_kept env \<Longrightarrow> channel_open s \<Longrightarrow> channel_open s'"
  using keepsD [OF assms(1) [unfolded shared_only_def] assms(2)] by simp_all

lemma shared_only_calls:
  "shared_only env (on_node env f)" "shared_only env (ask_node env g)"
  "shared_only env (check_cancelled env)"
  by (auto simp: shared_only_def keeps_def dest: own_keeps open_keeps)

lemma shared_only_pure:
  "shared_only env (returnE x)" "shared_only env (throwE e)" "shared_only env (getE f)"
  by (simp_all add: shared_only_def keeps_def)

lemma shared_only_bind:
  "shared_only env m \<Longrightarrow> (\<And>x. shared_only env (f x)) \<Longrightarrow> shared_only env (bindE m f)"
  unfolding shared_only_def by (rule keeps_bind) auto

lemma find_blocks_shared_only: "shared_only env (find_blocks wl nl env kind)"
  unfolding find_blocks_def select_fetch_def
  by (intro shared_only_bind)
    (auto intro!: shared_only_bind shared_only_calls shared_only_pure split: prod.splits)

text \<open>
  The end of a scan that is below the height it scanned to: one more update, whose checkpoint
  is the stop height. \<open>known_hash\<close> says that the node gave this hash for the height.
\<close>

definition known_hash :: "('x, 'w, 'b) node_lib \<Rightarrow> u32 \<times> BlockHash \<Rightarrow> bool" where
  "known_hash nl b \<longleftrightarrow> (\<exists>w. chain_get_block_hash nl (fst b) w = Inr (snd b))"

definition ends_at ::
  "('b, 'c, 'g, 'i, 't) wallet_lib \<Rightarrow> ('x, 'w, 'b) node_lib \<Rightarrow> u32 \<Rightarrow>
   ('n, 'r, 'w, 'b, 'c, 'g, 't) Client \<Rightarrow> ('n, 'r, 'w, 'b, 'c, 'g, 't) Client \<Rightarrow> bool" where
  "ends_at wl nl stop s s' \<longleftrightarrow> (\<exists>hash. known_hash nl (stop, hash) \<and> cp_height wl (checkpoint s) < stop \<and>
     checkpoint s' = cp_insert wl (checkpoint s) (stop, hash) \<and>
     sent s' = sent s @ [WalletUpdate (update_at wl (checkpoint s') (tx_graph s))])"

lemma final_checkpoint_cases:
  assumes "sender_kept env" and "channel_open s" and "final_checkpoint wl nl env stop s = (r, s')"
  shows "channel_open s' \<and>
    ((published wl [] s s' \<and> (r = Inr () \<longrightarrow> stop \<le> cp_height wl (checkpoint s))) \<or>
     (r = Inr () \<and> ends_at wl nl stop s s'))"
proof (cases "cp_height wl (checkpoint s) < stop")
  case False
  with assms show ?thesis by (auto simp: final_checkpoint_def bindE_def not_less)
next
  case True
  let ?ask = "ask_node env (get_block_hash (chain_get_block_hash nl) stop)"
  obtain q s1 where ask: "?ask s = (q, s1)" by force
  note o1 = ask_node_open [OF ask assms(1,2)]
  note p1 = own_position [OF ask_node_own [OF ask]]
  show ?thesis
  proof (cases q)
    case (Inl e)
    with True ask assms(3) o1 p1 show ?thesis by (auto simp: final_checkpoint_def bindE_def)
  next
    case (Inr hash)
    from ask Inr have k: "known_hash nl (stop, hash)"
      by (auto simp: ask_node_eq get_block_hash_def known_hash_def)
    from True ask Inr assms(3) have "publish wl env (stop, hash) s1 = (r, s')"
      by (simp add: final_checkpoint_def bindE_def)
    from publish_open [OF assms(1) o1 this] True k p1 show ?thesis
      by (auto simp: ends_at_def position_def)
  qed
qed

lemma find_blocks_then:
  assumes "scan_inner wl nl env kind s = (r, s')"
  obtains (Failed) e where "find_blocks wl nl env kind s = (Inl e, s')" "r = Inl e"
  | (Found) stop blocks s1 where "find_blocks wl nl env kind s = (Inr (stop, blocks), s1)"
      "bindE (process_blocks wl nl env blocks) (\<lambda>_. final_checkpoint wl nl env stop) s1 = (r, s')"
proof (cases rule: bindE_cases [of "find_blocks wl nl env kind" s "\<lambda>(stop_height, blocks).
     bindE (process_blocks wl nl env blocks) (\<lambda>_. final_checkpoint wl nl env stop_height)"])
  case (Err e s1)
  with assms Failed show ?thesis by (simp add: scan_inner_split)
next
  case (Ok x s1)
  with assms Found show ?thesis by (cases x) (simp add: scan_inner_split)
qed

text \<open>
  A subscriber that applies the updates in order ends at the client's checkpoint.
\<close>

definition in_sync ::
  "('t, 'c) Update list \<Rightarrow> ('n, 'r, 'w, 'b, 'c, 'g, 't) Client \<Rightarrow> ('n, 'r, 'w, 'b, 'c, 'g, 't) Client \<Rightarrow> bool" where
  "in_sync us s s' \<longleftrightarrow>
     (if us = [] then checkpoint s' = checkpoint s else chain (last us) = Some (checkpoint s'))"

lemma in_sync_cong:
  "position s = position s1 \<Longrightarrow> position t = position t1 \<Longrightarrow> in_sync us s t = in_sync us s1 t1"
  by (simp add: in_sync_def position_def)

lemma published_in_sync:
  assumes "published wl bhs s s'"
  shows "in_sync (snd (apply_blocks wl bhs (position s))) s s'"
proof -
  obtain c g us where ap: "apply_blocks wl bhs (position s) = ((c, g), us)"
    by (metis prod.exhaust)
  from apply_blocks_last [OF ap] assms ap show ?thesis
    by (simp add: published_def in_sync_def position_def split: if_splits)
qed

text \<open>
  The updates of a scan: blocks at heights the node knows are applied, and if the scan got to its
  end and is below the height it scanned to, there is one more update, at that height.
\<close>

definition accounted ::
  "('b, 'c, 'g, 'i, 't) wallet_lib \<Rightarrow> ('x, 'w, 'b) node_lib \<Rightarrow> ('t, 'c) Update list \<Rightarrow>
   ('n, 'r, 'w, 'b, 'c, 'g, 't) Client \<Rightarrow> ('n, 'r, 'w, 'b, 'c, 'g, 't) Client \<Rightarrow> bool" where
  "accounted wl nl us s s' \<longleftrightarrow> (\<exists>bhs c g vs. known_heights wl nl bhs \<and>
     apply_blocks wl bhs (position s) = ((c, g), vs) \<and>
     (us = vs \<and> position s' = (c, g) \<or>
      (\<exists>b. known_hash nl b \<and> cp_height wl c < fst b \<and> checkpoint s' = cp_insert wl c b \<and>
         us = vs @ [update_at wl (checkpoint s') g])))"

lemma accounted_in_sync:
  assumes "accounted wl nl us s s'"
  shows "in_sync us s s'"
proof -
  from assms obtain bhs c g vs where ap: "apply_blocks wl bhs (position s) = ((c, g), vs)"
    and us: "us = vs \<and> position s' = (c, g) \<or> (\<exists>g1. us = vs @ [update_at wl (checkpoint s') g1])"
    unfolding accounted_def by blast
  from apply_blocks_last [OF ap] us show ?thesis
    by (auto simp: in_sync_def position_def update_at_def split: if_splits)
qed

lemma accounted_Nil: "position s' = position s \<Longrightarrow> accounted wl nl [] s s'"
  unfolding accounted_def by (cases "position s") (auto intro!: exI [of _ "[]"])

lemma accounted_cong:
  "position s = position s1 \<Longrightarrow> position t = position t1 \<Longrightarrow> accounted wl nl us s t = accounted wl nl us s1 t1"
  by (simp add: accounted_def position_def)

lemma published_accounted:
  "published wl bhs s s' \<Longrightarrow> known_heights wl nl bhs \<Longrightarrow> accounted wl nl (snd (apply_blocks wl bhs (position s))) s s'"
  unfolding accounted_def published_def by (metis prod.collapse)

lemma published_ends_accounted:
  assumes "published wl bhs s s1" and "known_heights wl nl bhs" and "ends_at wl nl stop s1 s'"
  shows "accounted wl nl (snd (apply_blocks wl bhs (position s)) @ [update_at wl (checkpoint s') (tx_graph s1)]) s s'"
proof -
  obtain c g vs where ap: "apply_blocks wl bhs (position s) = ((c, g), vs)" by (metis prod.exhaust)
  with assms(1) have "checkpoint s1 = c" "tx_graph s1 = g" by (simp_all add: published_def position_def)
  with assms(3) obtain hash where "known_hash nl (stop, hash)" "cp_height wl c < stop"
    "checkpoint s' = cp_insert wl c (stop, hash)" by (auto simp: ends_at_def)
  with ap assms(2) \<open>tx_graph s1 = g\<close> show ?thesis
    unfolding accounted_def by fastforce
qed

lemma scan_inner_trail:
  assumes "sender_kept env" and "channel_open s" and "scan_inner wl nl env kind s = (r, s')"
  shows "channel_open s' \<and> (\<exists>us. sent s' = sent s @ map WalletUpdate us \<and> accounted wl nl us s s')"
  using assms(3)
proof (cases rule: find_blocks_then)
  case (Failed e)
  with find_blocks_shared_only [of env wl nl kind] assms(1,2)
  have "channel_open s'" and "position s' = position s" "sent s' = sent s"
    by (auto dest: shared_onlyD own_position)
  then show ?thesis using accounted_Nil by (auto intro!: exI [of _ "[]"])
next
  case (Found stop blocks s1)
  from Found(1) find_blocks_shared_only [of env wl nl kind] assms(1,2)
  have o1: "channel_open s1" and p1: "position s1 = position s" "sent s1 = sent s"
    by (auto dest: shared_onlyD own_position)
  show ?thesis
  proof (cases rule: bindE_cases [of "process_blocks wl nl env blocks" s1 "\<lambda>_. final_checkpoint wl nl env stop"])
    case (Err e s2)
    with Found(2) have eq: "s' = s2" by simp
    from process_blocks_account [OF assms(1) o1 Err(1)] obtain bhs where
      o2: "channel_open s2" and pub: "published wl bhs s1 s2" and known: "known_heights wl nl bhs" by blast
    from pub have "sent s2 = sent s @ map WalletUpdate (snd (apply_blocks wl bhs (position s1)))"
      using p1 by (simp add: published_def)
    moreover from published_accounted [OF pub known] accounted_cong [OF p1(1) refl, of wl nl _ s2]
    have "accounted wl nl (snd (apply_blocks wl bhs (position s1))) s s2" by blast
    ultimately show ?thesis using eq o2 by blast
  next
    case (Ok x s2)
    with Found(2) have fc: "final_checkpoint wl nl env stop s2 = (r, s')" by simp
    from process_blocks_account [OF assms(1) o1 Ok(1)] obtain bhs where
      o2: "channel_open s2" and pub: "published wl bhs s1 s2" and known: "known_heights wl nl bhs" by blast
    let ?us = "snd (apply_blocks wl bhs (position s1))"
    from final_checkpoint_cases [OF assms(1) o2 fc]
    consider "channel_open s'" "published wl [] s2 s'" | "channel_open s'" "ends_at wl nl stop s2 s'"
      by blast
    then show ?thesis
    proof cases
      case 1
      from 1(2) have p2: "position s' = position s2" "sent s' = sent s2" by simp_all
      have "sent s' = sent s @ map WalletUpdate ?us"
        using pub p1 unfolding p2 by (simp add: published_def)
      moreover have "accounted wl nl ?us s s'"
        using published_accounted [OF pub known] accounted_cong [OF p1(1) p2(1) [symmetric]] by blast
      ultimately show ?thesis using 1(1) by blast
    next
      case 2
      then have "sent s' = sent s1 @ map WalletUpdate (?us @ [update_at wl (checkpoint s') (tx_graph s2)])"
        using pub by (auto simp: ends_at_def published_def)
      moreover have "accounted wl nl (?us @ [update_at wl (checkpoint s') (tx_graph s2)]) s s'"
        using published_ends_accounted [OF pub known 2(2)] accounted_cong [OF p1(1) refl] by blast
      ultimately show ?thesis using 2(1) p1 by metis
    qed
  qed
qed

lemma select_ready_open:
  "sender_kept env \<Longrightarrow> channel_open s \<Longrightarrow> select_ready env ws s = (q, s') \<Longrightarrow> channel_open s'"
proof (induction ws arbitrary: s)
  case (Cons w ws)
  let ?s1 = "s\<lparr>shared := env (clock s) (shared s), clock := Suc (clock s)\<rparr>"
  have "channel_open ?s1" using Cons.prems by simp
  with Cons.IH [of ?s1] Cons.prems show ?case
    by (cases w) (auto simp: check_cancelled_eq borrow_state_eq split: if_splits State.splits)
qed simp

lemma wait_until_ready_result:
  assumes "sender_kept env" and "channel_open s" and "wait_until_ready env ws s = (q, s')"
  shows "justified q (SenderGone \<in> set ws) (shared s') \<and> channel_open s' \<and>
    position s' = position s \<and> sent s' = sent s"
  using select_ready_justified [OF assms(3) [unfolded wait_is_select]]
    select_ready_open [OF assms(1,2) assms(3) [unfolded wait_is_select]]
  by (auto dest: own_position)

lemma scan_and_report_trail:
  assumes "sender_kept env" and "channel_open s"
    and "scan_and_report errtext wl nl env kg kind s = (r, s')"
  shows "channel_open s' \<and> (\<exists>us. sent s' = sent s @ map WalletUpdate us @ [scan_end errtext kg r] \<and>
    accounted wl nl us s s')"
proof -
  obtain r2 s2 where si: "scan_inner wl nl env kind s = (r2, s2)" by force
  from scan_inner_trail [OF assms(1,2) si] obtain us where o2: "channel_open s2"
    and us: "sent s2 = sent s @ map WalletUpdate us" "accounted wl nl us s s2" by blast
  from si assms(3) have "bindE (send_event env (scan_end errtext kg r2)) (\<lambda>_. liftE r2) s2 = (r, s')"
    by (simp add: scan_and_report_def Let_def)
  then have r: "r = r2" and s': "s' = s2\<lparr>shared := env (clock s2) (shared s2), clock := Suc (clock s2),
      sent := sent s2 @ [scan_end errtext kg r2]\<rparr>"
    by (auto simp: bindE_def send_event_open [OF assms(1) o2])
  have "accounted wl nl us s s'"
    using us(2) accounted_cong [OF refl, where t = s' and ?t1.0 = s2 and wl = wl and nl = nl and us = us and s = s] s'
    by simp
  moreover have "channel_open s'" using assms(1) o2 unfolding s' by simp
  ultimately show ?thesis using us(1) unfolding r s' by auto
qed

text \<open>
  Once the wait is over, the events of a scan that is not cut off by a shutdown are its updates
  and then one last event, which agrees with the result. If the wait fails there is no event.
\<close>

lemma scan_event_trail:
  fixes errtext :: "('x, 'n) ClientError \<Rightarrow> string"
  assumes "sender_kept env" and "channel_open s" and "scan errtext wl nl env ws kind s = (Some r, s')"
  shows "(sent s' = sent s \<and> checkpoint s' = checkpoint s \<and>
      r \<in> {Inl ScanAborted, Inl ClientError.UnresponsiveNode}) \<or>
    (\<exists>us. sent s' = sent s @ map WalletUpdate us @ [scan_end errtext False r] \<and> accounted wl nl us s s')"
proof -
  obtain q :: "(('x, 'n) ClientError + unit) option" and s1 where
    w: "wait_until_ready env ws s = (q, s1)" by force
  from wait_until_ready_result [OF assms(1,2) w]
  have j: "justified q (SenderGone \<in> set ws) (shared s1)" and o1: "channel_open s1"
    and p1: "position s1 = position s" "sent s1 = sent s" by simp_all
  consider "q = None" | e where "q = Some (Inl e)" | u where "q = Some (Inr u)"
    by (metis option.exhaust sum.exhaust)
  then show ?thesis
  proof cases
    case 1
    with assms(3) w show ?thesis by (simp add: scan_def)
  next
    case 2
    with assms(3) w j p1 show ?thesis by (auto simp: scan_def justified_def position_def)
  next
    case 3
    with w assms(3) have "scan_and_report errtext wl nl env False kind s1 = (r, s')"
      by (simp add: scan_def Let_def split: prod.splits)
    from scan_and_report_trail [OF assms(1) o1 this] p1 accounted_cong [OF p1(1) refl, of wl nl _ s']
    show ?thesis by auto
  qed
qed

section \<open>How far a scan gets\<close>

text \<open>
  What the code relies on of \<open>CheckPoint::insert\<close>: inserting a block above the tip makes it
  the tip.
\<close>

definition insert_extends :: "('b, 'c, 'g, 'i, 't) wallet_lib \<Rightarrow> bool" where
  "insert_extends wl \<longleftrightarrow>
     (\<forall>c h x. cp_height wl c < h \<longrightarrow> cp_height wl (cp_insert wl c (h, x)) = h)"

lemma send_event_checkpoint: "send_event env e s = (r, s') \<Longrightarrow> position s' = position s"
  by (auto simp: send_event_def bindE_def lock_event_tx_eq split: if_splits)

lemma publish_checkpoint:
  "publish wl env b s = (r, s') \<Longrightarrow> checkpoint s' = cp_insert wl (checkpoint s) b"
  unfolding publish_eq by (drule send_event_checkpoint) (simp add: position_def)

lemma final_checkpoint_height:
  fixes nl :: "('x, 'w, 'b) node_lib" and s :: "('n, 'r, 'w, 'b, 'c, 'g, 't) Client"
  assumes "insert_extends wl" and "final_checkpoint wl nl env stop s = (Inr (), s')"
  shows "stop \<le> cp_height wl (checkpoint s')"
proof (cases "cp_height wl (checkpoint s) < stop")
  case False
  with assms(2) show ?thesis by (auto simp: final_checkpoint_def bindE_def not_less)
next
  case True
  let ?ask = "ask_node env (get_block_hash (chain_get_block_hash nl) stop)"
  obtain q s1 where ask: "?ask s = (q, s1)" by force
  with True assms(2) obtain hash where "q = Inr hash" by (cases q) (auto simp: final_checkpoint_def bindE_def)
  with True assms(2) ask have pub:
    "publish wl env (stop, hash) s1 = ((Inr () :: ('x, 'n) ClientError + unit), s')"
    by (auto simp: final_checkpoint_def bindE_def)
  from own_position [OF ask_node_own [OF ask]] have "checkpoint s1 = checkpoint s"
    by (simp add: position_def)
  with publish_checkpoint [OF pub] True assms(1) show ?thesis by (simp add: insert_extends_def)
qed

lemma find_blocks_stop:
  fixes nl :: "('x, 'w, 'b) node_lib" and s :: "('n, 'r, 'w, 'b, 'c, 'g, 't) Client"
  assumes "find_blocks wl nl env kind s = (Inr (stop, blocks), s')"
  shows "\<exists>w start spks. filters_get_height nl w = Inr stop \<and> scan_plan wl kind s = (Inr (start, spks) :: ('x, 'n) ClientError + u32 \<times> bytes list) \<and>
    start \<le> stop"
  using assms
  by (auto simp: find_blocks_def bindE_def ask_node_eq get_filter_height_def not_less
      split: prod.splits sum.splits if_splits)


text \<open>
  A start above the height of the filter store is refused before anything is asked of the
  filters or the peers: the error names both heights, and the client and the node are as they
  were.
\<close>

theorem invalid_range_refused:
  fixes nl :: "('x, 'w, 'b) node_lib" and s :: "('n, 'r, 'w, 'b, 'c, 'g, 't) Client"
  assumes "scan_plan wl kind s = (Inr (start, spks) :: ('x, 'n) ClientError + u32 \<times> bytes list)"
    and "filters_get_height nl (backend (node (env (clock s) (shared s)))) = Inr stop"
    and "stop < start"
  shows "scan_inner wl nl env kind s =
    (Inl (InvalidRange start stop), s\<lparr>shared := env (clock s) (shared s), clock := Suc (clock s)\<rparr>)"
  using assms by (simp add: scan_inner_def bindE_def ask_node_eq get_filter_height_def)

section \<open>Cancellation\<close>

text \<open>A token that is cancelled stays cancelled.\<close>

definition cancel_sticks :: "('n, 'r, 'w, 'b) others \<Rightarrow> bool" where
  "cancel_sticks env \<longleftrightarrow> (\<forall>i sh. client_token sh \<longrightarrow> client_token (env i sh))"

lemma on_node_token:
  "on_node env f s = (r, s') \<Longrightarrow> client_token (shared s') = client_token (env (clock s) (shared s))"
  by (auto simp: on_node_eq)

lemma cancelled_find_blocks:
  assumes "cancel_sticks env" and "client_token (shared s)"
  shows "\<exists>e s'. find_blocks wl nl env kind s = (Inl e, s')"
proof -
  let ?sh = "env (clock s) (shared s)"
  let ?s1 = "s\<lparr>shared := ?sh, clock := Suc (clock s)\<rparr>"
  have "client_token (env (Suc (clock s)) ?sh)"
    using assms by (simp add: cancel_sticks_def)
  then show ?thesis
    by (auto simp: find_blocks_def bindE_def ask_node_eq check_cancelled_eq split: sum.splits prod.splits)
qed

text \<open>
  A scan of a cancelled client never succeeds and leaves no trace: no event, the same
  checkpoint and transaction graph.
\<close>

theorem cancelled_scan_fails:
  assumes "cancel_sticks env" and "client_token (shared s)"
  shows "\<exists>e. fst (scan_inner wl nl env kind s) = Inl e \<and> own (snd (scan_inner wl nl env kind s)) = own s"
proof -
  from cancelled_find_blocks [OF assms] obtain e s' where
    "find_blocks wl nl env kind s = (Inl e, s')" by blast
  with find_blocks_shared_only [of env wl nl kind] show ?thesis
    by (auto simp: scan_inner_split bindE_def dest: shared_onlyD)
qed

text \<open>
  A scan that is cancelled while it waits for its blocks drops the call of \<open>fetch_blocks\<close>
  where it is suspended, so the call never untracks its action: the node goes on reporting
  \<open>FetchingBlocks\<close> after the scan is gone.
\<close>

theorem cancelled_fetch_leaks_action:
  assumes "\<not> client_token (env (clock s) (shared s))"
    and "\<And>i sh. actions (node (env i sh)) = actions (node sh)"
    and "\<And>sh. client_token (env (clock s + 2) sh)"
  shows "fst (select_fetch nl env hashes s) = Inl ScanAborted \<and>
    FetchingBlocks (of_nat (length hashes)) \<in> actions (node (shared (snd (select_fetch nl env hashes s))))"
  using assms(1) assms(3) [simplified]
  by (simp add: select_fetch_def bindE_def check_cancelled_eq on_node_eq fetch_blocks_begin_def assms(2))

section \<open>What a scan leaves behind on the node\<close>

text \<open>No scan is in flight on the node.\<close>

definition idle :: "('n, 'r, 'w) Node \<Rightarrow> bool" where
  "idle n \<longleftrightarrow> MatchingFilters \<notin> actions n \<and> (\<forall>k. FetchingBlocks k \<notin> actions n)"

text \<open>A call that gives an idle node back as it took it, whatever it answers.\<close>

locale restoring_call =
  fixes call :: "('n, 'r, 'w) Node \<Rightarrow> ('x NodeError + 'a) \<times> ('n, 'r, 'w) Node"
  assumes restores: "idle n \<Longrightarrow> snd (call n) = n"
begin

lemma undisturbed:
  "on_node alone call s = (r, s') \<Longrightarrow> idle (node (shared s)) \<Longrightarrow> shared s' = shared s"
  by (auto simp: on_node_eq restores)

end

interpretation filter_query: restoring_call
  "match_filters filters_height filters_match spks start stop"
  for filters_height filters_match spks start stop
  by unfold_locales
    (auto simp: match_filters_def idle_def Let_def untrack_action_def track_action_def track_def
      untrack_def split: sum.splits)

interpretation pure_query: restoring_call "\<lambda>n. (ask n, n)" for ask
  by unfold_locales simp

definition restoring :: "('n, 'r, 'w, 'b, 'c, 'g, 't, 'x, 'a) client_comp \<Rightarrow> bool" where
  "restoring m \<longleftrightarrow> keeps (\<lambda>s s'. idle (node (shared s)) \<longrightarrow> shared s' = shared s) m"

lemma restoring_bind: "restoring m \<Longrightarrow> (\<And>x. restoring (f x)) \<Longrightarrow> restoring (bindE m f)"
  unfolding restoring_def by (rule keeps_bind) auto

lemma restoring_parts:
  "restoring (returnE x)" "restoring (throwE e)" "restoring (getE f)" "restoring (check_cancelled alone)"
  "restoring (on_node alone (match_filters fh fm spks start stop))" "restoring (ask_node alone g)"
  "restoring (send_event alone ev)" "restoring (publish wl alone b)"
  "restoring (\<lambda>s. let (e, g') = h s in (Inr e, s\<lparr>tx_graph := g'\<rparr>))"
  by (auto simp: restoring_def keeps_def check_cancelled_eq filter_query.undisturbed ask_node_def
      pure_query.undisturbed publish_eq send_event_def bindE_def lock_event_tx_eq
      split: if_splits prod.splits)

lemma restoring_select_fetch: "restoring (select_fetch nl alone hashes)"
  by (auto simp: restoring_def keeps_def select_fetch_def bindE_def check_cancelled_eq on_node_eq idle_def
      fetch_blocks_end_def fetch_blocks_begin_def Let_def untrack_action_def track_action_def
      track_def untrack_def split: if_splits)

lemma restoring_process_blocks: "restoring (process_blocks wl nl alone blocks)"
proof (induction blocks)
  case (Cons b blocks)
  have "restoring (process_block wl nl alone b)"
    unfolding process_block_def Let_def
    by (intro restoring_bind) (auto intro!: restoring_parts [unfolded Let_def])
  then show ?case unfolding process_blocks.simps by (rule restoring_bind) (rule Cons)
next
  case Nil
  show ?case unfolding process_blocks.simps by (rule restoring_parts(1))
qed

text \<open>
  C29. A scan that nobody disturbs gives the node back as it found it, whatever its outcome:
  the actions it tracked are untracked on success and on each of its errors.
\<close>

theorem undisturbed_scan_restores_node:
  assumes "idle (node (shared s))"
  shows "shared (snd (scan_inner wl nl alone kind s)) = shared s"
proof -
  have "restoring (scan_inner wl nl alone kind)"
    unfolding scan_inner_def final_checkpoint_def
    by (auto intro!: restoring_bind restoring_parts restoring_select_fetch restoring_process_blocks
        split: prod.splits)
  with assms show ?thesis unfolding restoring_def keeps_def by (metis prod.collapse)
qed

section \<open>A scan to compute with\<close>

text \<open>
  The filters match two blocks, of which the second is relevant; the filter store is at 9.
\<close>

definition sample_node_lib :: "(nat, unit, BlockHash \<times> bool) node_lib" where
  "sample_node_lib = \<lparr>filters_get_height = (\<lambda>_. Inr 9), match_any = (\<lambda>_ _ _ _. Inr [3, 4]),
     handle_get_block = (\<lambda>_ h _. Inr (Some (h, h = 4))), try_join_all = join_in_order,
     chain_get_block_height = (\<lambda>h _. Inr (Some (if h = 4 then 7 else 6))),
     chain_get_block_hash = (\<lambda>h _. Inr 99)\<rparr>"

abbreviation sample_start ::
  "(nat, nat, unit, BlockHash \<times> bool, u32, u32 \<times> BlockHash list, BlockHash list) Client" where
  "sample_start \<equiv> sample_client () Operational"

lemma alone_kept [simp]: "sender_kept alone" "cancel_sticks alone"
  by (simp_all add: sender_kept_def cancel_sticks_def)

lemma sample_start_simps [simp]:
  "channel_open sample_start" "idle (node (shared sample_start))"
  "checkpoint sample_start = 5" "sent sample_start = []" "tx_graph sample_start = (1, [])"
  "clock sample_start = 0"
  by (simp_all add: sample_client_def channel_open_def idle_def)

lemma sample_insert_extends: "insert_extends sample_lib"
  by (auto simp: insert_extends_def sample_lib_def)

definition sample_result ::
  "((nat, nat) ClientError + unit) \<times>
   (nat, nat, unit, BlockHash \<times> bool, u32, u32 \<times> BlockHash list, BlockHash list) Client" where
  "sample_result = scan_inner sample_lib sample_node_lib alone Sync sample_start"

lemmas scan_inner_eqs = scan_inner_def derive_spks_def derive_spks_with_custom_lookahead_def bindE_def
  ask_node_eq check_cancelled_eq on_node_eq get_filter_height_def match_filters_def Let_def
  select_fetch_def fetch_blocks_begin_def fetch_blocks_end_def fetch_one_def process_block_def
  get_block_height_def get_block_hash_def final_checkpoint_def publish_eq send_event_def
  lock_event_tx_eq update_at_def

lemma sample_scan:
  "fst sample_result = Inr ()" "checkpoint (snd sample_result) = 9"
  "sent (snd sample_result) =
     [WalletUpdate \<lparr>tx_update = [4], last_active_indices = Map.empty, chain = Some 7\<rparr>,
      WalletUpdate \<lparr>tx_update = [], last_active_indices = Map.empty, chain = Some 9\<rparr>]"
  by (simp_all add: sample_result_def scan_inner_eqs sample_lib_def sample_node_lib_def sample_client_def)



theorem invalid_range_refused_witness:
  "fst (scan_inner sample_lib sample_node_lib alone (Custom 10 1) sample_start) =
     (Inl (InvalidRange 10 9) :: (nat, nat) ClientError + unit)"
proof -
  have "scan_plan sample_lib (Custom 10 1) sample_start =
      (Inr (10, [[10], [11]]) :: (nat, nat) ClientError + u32 \<times> bytes list)"
    and "filters_get_height sample_node_lib (backend (node (alone (clock sample_start) (shared sample_start)))) =
      Inr 9"
    by (simp_all add: derive_spks_with_custom_lookahead_def sample_lib_def sample_node_lib_def
        sample_client_def Let_def saturating_add_def)
  from invalid_range_refused [where env = alone and nl = sample_node_lib, OF this] show ?thesis by simp
qed

text \<open>Another task cancels the client's token before its access number \<open>k\<close>.\<close>

definition cancels_at :: "nat \<Rightarrow> ('n, 'r, 'w, 'b) others" where
  "cancels_at k i sh = (if i = k then sh\<lparr>client_token := True\<rparr> else sh)"

theorem cancelled_scan_fails_witness:
  "own (snd (scan_inner sample_lib sample_node_lib alone Sync
     (sample_start\<lparr>shared := (shared sample_start)\<lparr>client_token := True\<rparr>\<rparr>) ::
       ((nat, nat) ClientError + unit) \<times> _)) = own sample_start"
proof -
  let ?s = "sample_start\<lparr>shared := (shared sample_start)\<lparr>client_token := True\<rparr>\<rparr>"
  have "client_token (shared ?s)" by simp
  from cancelled_scan_fails [OF alone_kept(2) this] show ?thesis by fastforce
qed

theorem cancelled_fetch_leaks_action_witness:
  "FetchingBlocks 2 \<in> actions (node (shared (snd (select_fetch sample_node_lib (cancels_at 2) [3, 4]
     sample_start))))"
proof -
  have "\<not> client_token (cancels_at 2 (clock sample_start) (shared sample_start))"
    by (simp add: cancels_at_def sample_client_def)
  moreover have "actions (node (cancels_at 2 i sh)) = actions (node sh)" for i
    and sh :: "(nat, nat, unit, BlockHash \<times> bool) shared"
    by (simp add: cancels_at_def)
  moreover have "client_token (cancels_at 2 (clock sample_start + 2) sh)"
    for sh :: "(nat, nat, unit, BlockHash \<times> bool) shared"
    by (simp add: cancels_at_def)
  ultimately show ?thesis
    using cancelled_fetch_leaks_action [of "cancels_at 2" sample_start sample_node_lib "[3, 4]"] by simp
qed

theorem undisturbed_scan_restores_node_witness: "shared (snd sample_result) = shared sample_start"
  unfolding sample_result_def by (rule undisturbed_scan_restores_node) simp

end
