(* ===== verification/Relations.thy ===== *)
theory Relations
  imports Scan
begin

text \<open>
  What every computation of a client keeps (\<open>src/src/client/mod.rs\<close>): a relation between the
  client before and after that the others keep between two accesses, and that does not depend on
  the fields the client changes itself, is kept by the wait, by a scan and by its report. The
  theories that follow state what they rely on as such relations.
\<close>

lemma node_calls_keep_token:
  "cancellation_token (fetch_blocks_begin hashes n) = cancellation_token n"
  "cancellation_token (snd (fetch_blocks_end join get hashes n)) = cancellation_token n"
  "cancellation_token (snd (match_filters h m spks a b n)) = cancellation_token n"
  by (auto simp: fetch_blocks_begin_def fetch_blocks_end_def match_filters_def track_action_def
      untrack_action_def Let_def split: sum.splits)

lemma select_ready_then:
  "select_ready env (PollCancelled # ws) = (\<lambda>s. case check_cancelled env s of (r, s1) \<Rightarrow>
     (case r of Inl e \<Rightarrow> \<lambda>s. (Some (Inl e), s) | Inr _ \<Rightarrow> select_ready env ws) s1)"
  "select_ready env (StateChanged # ws) = (\<lambda>s. case borrow_state env s of (r, s1) \<Rightarrow>
     (case r of Inl e \<Rightarrow> \<lambda>s. (Some (Inl e), s) | Inr (Some _) \<Rightarrow> \<lambda>s. (Some (Inr ()), s)
      | Inr None \<Rightarrow> select_ready env ws) s1)"
  "select_ready env [] = (\<lambda>s. (None, s))"
  "select_ready env (SenderGone # ws) = (\<lambda>s. (Some (Inl ClientError.UnresponsiveNode), s))"
  by (auto simp: fun_eq_iff split: prod.splits sum.splits option.splits)

lemma scan_and_report_then:
  "scan_and_report errtext wl nl env kg kind = (\<lambda>s. case scan_inner wl nl env kind s of
     (q, s1) \<Rightarrow> bindE (send_event env (scan_end errtext kg q)) (\<lambda>_. liftE q) s1)"
  by (simp add: scan_and_report_def Let_def)

lemma scan_then:
  "scan errtext wl nl env ws kind = (\<lambda>s. case select_ready env (StateChanged # ws) s of (q, s1) \<Rightarrow>
     (case q of None \<Rightarrow> \<lambda>s. (None, s) | Some (Inl e) \<Rightarrow> \<lambda>s. (Some (Inl e), s)
      | Some (Inr _) \<Rightarrow> \<lambda>s. case scan_and_report errtext wl nl env False kind s of
          (r, s2) \<Rightarrow> (\<lambda>s. (Some r, s)) s2) s1)"
  by (auto simp: scan_def wait_is_select Let_def fun_eq_iff split: prod.splits sum.splits option.splits)

locale client_relation =
  fixes env :: "('n, 'r, 'w, 'b) others"
    and R :: "('n, 'r, 'w, 'b, 'c, 'g, 't) Client \<Rightarrow> ('n, 'r, 'w, 'b, 'c, 'g, 't) Client \<Rightarrow> bool"
  assumes trans: "R s t \<Longrightarrow> R t u \<Longrightarrow> R s u"
    and own_change: "R s (s\<lparr>checkpoint := c, tx_graph := g, sent := es\<rparr>)"
    and node_call: "cancellation_token n = cancellation_token (node (env (clock s) (shared s))) \<Longrightarrow>
      R s (s\<lparr>shared := (env (clock s) (shared s))\<lparr>node := n\<rparr>, clock := Suc (clock s)\<rparr>)"
begin

lemma same: "R s s"
  using own_change [where s = s and c = "checkpoint s" and g = "tx_graph s" and es = "sent s"] by simp

lemma look: "R s (s\<lparr>shared := env (clock s) (shared s), clock := Suc (clock s)\<rparr>)"
  using node_call [of "node (env (clock s) (shared s))" s] by simp

lemma keeps_pure:
  "keeps R (returnE x)" "keeps R (throwE e)" "keeps R (getE f)" "keeps R (liftE q)" "keeps R (\<lambda>s. (r, s))"
  by (simp_all add: keeps_def same)

lemma keeps_own:
  "keeps R (modifyE (\<lambda>s. s\<lparr>sent := g1 s\<rparr>))" "keeps R (modifyE (\<lambda>s. s\<lparr>checkpoint := g2 s\<rparr>))"
  "keeps R (modifyE (\<lambda>s. s\<lparr>tx_graph := g3 s\<rparr>))"
  "keeps R (\<lambda>s. let (e, g') = h s in (Inr e, s\<lparr>tx_graph := g'\<rparr>))"
  "keeps R (\<lambda>s. let (u, s1) = finish_update wl s in (Inr u, s1))"
proof -
  have o: "R s (s\<lparr>sent := es\<rparr>)" "R s (s\<lparr>checkpoint := c\<rparr>)" "R s (s\<lparr>tx_graph := g\<rparr>)" for s es c g
    using own_change [where s = s and c = "checkpoint s" and g = "tx_graph s" and es = es]
      own_change [where s = s and c = c and g = "tx_graph s" and es = "sent s"]
      own_change [where s = s and c = "checkpoint s" and g = g and es = "sent s"] by simp_all
  show "keeps R (modifyE (\<lambda>s. s\<lparr>sent := g1 s\<rparr>))" "keeps R (modifyE (\<lambda>s. s\<lparr>checkpoint := g2 s\<rparr>))"
    "keeps R (modifyE (\<lambda>s. s\<lparr>tx_graph := g3 s\<rparr>))"
    "keeps R (\<lambda>s. let (e, g') = h s in (Inr e, s\<lparr>tx_graph := g'\<rparr>))"
    "keeps R (\<lambda>s. let (u, s1) = finish_update wl s in (Inr u, s1))"
    by (auto simp: keeps_def o finish_update_def Let_def split: prod.splits)
qed

lemma keeps_seq: "keeps R m \<Longrightarrow> (\<And>x. keeps R (f x)) \<Longrightarrow> keeps R (bindE m f)"
  by (rule keeps_bind) (rule trans)

lemma keeps_on_node:
  "(\<And>n. cancellation_token (snd (call n)) = cancellation_token n) \<Longrightarrow> keeps R (on_node env call)"
  by (auto simp: keeps_def on_node_eq intro!: node_call)

lemma keeps_calls:
  "keeps R (ask_node env f)" "keeps R (check_cancelled env)" "keeps R (lock_event_tx env)" "keeps R (borrow_state env)"
  by (auto simp: keeps_def ask_node_eq check_cancelled_eq lock_event_tx_eq borrow_state_eq look)

lemma keeps_parts:
  "keeps R (send_event env ev)" "keeps R (publish wl env b)" "keeps R (select_fetch nl env hashes)"
  "keeps R (final_checkpoint wl nl env stop)" "keeps R (process_block wl nl env blk)"
  unfolding send_event_def publish_def select_fetch_def final_checkpoint_def process_block_def Let_def
  by (auto intro!: keeps_seq keeps_calls keeps_on_node keeps_pure keeps_own [unfolded Let_def]
      simp: node_calls_keep_token)

lemma keeps_process_blocks: "keeps R (process_blocks wl nl env blocks)"
  by (induction blocks) (auto intro!: keeps_seq keeps_parts keeps_pure)

lemma keeps_scan_inner: "keeps R (scan_inner wl nl env kind)"
  unfolding scan_inner_def
  by (auto intro!: keeps_seq keeps_calls keeps_on_node keeps_pure keeps_parts keeps_process_blocks
      simp: node_calls_keep_token split: prod.splits)

lemma keeps_scan_and_report: "keeps R (scan_and_report errtext wl nl env kg kind)"
  unfolding scan_and_report_then
  by (intro keeps_then keeps_scan_inner keeps_seq keeps_parts keeps_pure) (rule trans)

lemma keeps_wait: "keeps R (select_ready env ws)"
proof (induction ws)
  case Nil
  show ?case unfolding select_ready_then by (rule keeps_pure)
next
  case (Cons w ws)
  show ?case
  proof (cases w)
    case PollCancelled
    show ?thesis unfolding PollCancelled select_ready_then
      by (rule keeps_then [OF trans keeps_calls(2)]) (auto simp: keeps_pure Cons split: sum.splits)
  next
    case StateChanged
    show ?thesis unfolding StateChanged select_ready_then
      by (rule keeps_then [OF trans keeps_calls(4)])
        (auto simp: keeps_pure Cons split: sum.splits option.splits)
  next
    case SenderGone
    show ?thesis unfolding SenderGone select_ready_then by (rule keeps_pure)
  qed
qed

lemma keeps_scan: "keeps R (scan errtext wl nl env ws kind)"
  unfolding scan_then
  by (rule keeps_then [OF trans keeps_wait])
    (auto intro!: keeps_then [OF trans] keeps_pure keeps_scan_and_report split: sum.splits option.splits)

end

end
