(* ===== verification/Continuous.thy ===== *)
theory Continuous
  imports Relations
begin

text \<open>
  \<open>Client::scan_continuous\<close> of \<open>src/src/client/mod.rs\<close>: after the wait, block forwarding is
  enabled, one scan is made and reported, and then the blocks the node validates are applied as
  they arrive. The loop has no exit but an error, so it runs on fuel: one unit for each time the
  task is polled, and a loop that has used its polls is suspended, the result \<open>None\<close>.
\<close>

section \<open>The loop\<close>

definition enable_forwarding ::
  "('n, 'r, 'w, 'b) others \<Rightarrow> ('n, 'r, 'w, 'b, 'c, 'g, 't, 'x, nat) client_comp" where
  "enable_forwarding env = access env (\<lambda>sh.
     let (r, f) = enable_block_forwarding (block_sink sh)
     in (map_err (\<lambda>_. PoisonedLock) r, sh\<lparr>block_sink := f\<rparr>))"

definition drop_forwarding ::
  "('n, 'r, 'w, 'b) others \<Rightarrow> ('n, 'r, 'w, 'b, 'c, 'g, 't) Client \<Rightarrow> ('n, 'r, 'w, 'b, 'c, 'g, 't) Client" where
  "drop_forwarding env s =
     (let sh = env (clock s) (shared s)
      in s\<lparr>shared := sh\<lparr>block_sink := guard_drop (block_sink sh)\<rparr>, clock := Suc (clock s)\<rparr>)"

text \<open>A poll of the biased \<open>select!\<close>: the cancellation first, then the block receiver.\<close>

definition recv_block ::
  "('n, 'r, 'w, 'b) others \<Rightarrow> nat \<Rightarrow> ('n, 'r, 'w, 'b, 'c, 'g, 't, 'x, ('b \<times> u32) option) client_comp" where
  "recv_block env ch = access env (\<lambda>sh.
     let (r, f) = recv ch (block_sink sh)
     in (case r of
           Received b h \<Rightarrow> Inr (Some (b, h))
         | Pending \<Rightarrow> Inr None
         | Closed \<Rightarrow> Inl ClientError.UnresponsiveNode, sh\<lparr>block_sink := f\<rparr>))"

definition next_block ::
  "('n, 'r, 'w, 'b) others \<Rightarrow> nat \<Rightarrow> ('n, 'r, 'w, 'b, 'c, 'g, 't, 'x, ('b \<times> u32) option) client_comp" where
  "next_block env ch = bindE (check_cancelled env) (\<lambda>_. recv_block env ch)"

definition handle_block ::
  "('b, 'c, 'g, 'i, 't) wallet_lib \<Rightarrow> ('n, 'r, 'w, 'b) others \<Rightarrow> 'b \<times> u32 \<Rightarrow>
   ('n, 'r, 'w, 'b, 'c, 'g, 't, 'x, unit) client_comp" where
  "handle_block wl env = (\<lambda>(block, height).
     bindE (getE (\<lambda>s. Inr (height \<le> cp_height wl (checkpoint s)))) (\<lambda>known.
     if known then returnE ()
     else
       let hash = block_hash wl block in
       bindE (modifyE (\<lambda>s. s\<lparr>tx_graph := snd (apply_block_relevant wl block height (tx_graph s))\<rparr>)) (\<lambda>_.
       publish wl env (height, hash))))"

definition continuous_round ::
  "('b, 'c, 'g, 'i, 't) wallet_lib \<Rightarrow> ('n, 'r, 'w, 'b) others \<Rightarrow> nat \<Rightarrow>
   ('n, 'r, 'w, 'b, 'c, 'g, 't, 'x, unit) client_comp" where
  "continuous_round wl env ch =
     bindE (next_block env ch) (\<lambda>b. case b of None \<Rightarrow> returnE () | Some bh \<Rightarrow> handle_block wl env bh)"

fun continuous_loop ::
  "('b, 'c, 'g, 'i, 't) wallet_lib \<Rightarrow> ('n, 'r, 'w, 'b) others \<Rightarrow> nat \<Rightarrow> nat \<Rightarrow>
   ('n, 'r, 'w, 'b, 'c, 'g, 't) Client \<Rightarrow>
   (('x, 'n) ClientError + unit) option \<times> ('n, 'r, 'w, 'b, 'c, 'g, 't) Client" where
  "continuous_loop wl env ch 0 s = (None, s)"
| "continuous_loop wl env ch (Suc fuel) s =
     (case continuous_round wl env ch s of
        (Inl e, s1) \<Rightarrow> (Some (Inl e), s1)
      | (Inr _, s1) \<Rightarrow> continuous_loop wl env ch fuel s1)"

definition scan_continuous ::
  "(('x, 'n) ClientError \<Rightarrow> string) \<Rightarrow> ('b, 'c, 'g, 'i, 't) wallet_lib \<Rightarrow> ('x, 'w, 'b) node_lib \<Rightarrow>
   ('n, 'r, 'w, 'b) others \<Rightarrow> wake list \<Rightarrow> nat \<Rightarrow> ScanKind \<Rightarrow> ('n, 'r, 'w, 'b, 'c, 'g, 't) Client \<Rightarrow>
   (('x, 'n) ClientError + unit) option \<times> ('n, 'r, 'w, 'b, 'c, 'g, 't) Client" where
  "scan_continuous errtext wl nl env ws fuel scan_params s =
     (case wait_until_ready env ws s of
        (None, s1) \<Rightarrow> (None, s1)
      | (Some (Inl e), s1) \<Rightarrow> (Some (Inl e), s1)
      | (Some (Inr _), s1) \<Rightarrow>
          (case enable_forwarding env s1 of
             (Inl e, s2) \<Rightarrow> (Some (Inl e), s2)
           | (Inr ch, s2) \<Rightarrow>
               (case scan_and_report errtext wl nl env True scan_params s2 of
                  (Inl e, s3) \<Rightarrow> (Some (Inl e), drop_forwarding env s3)
                | (Inr _, s3) \<Rightarrow>
                    (case continuous_loop wl env ch fuel s3 of
                       (None, s4) \<Rightarrow> (None, s4)
                     | (Some r, s4) \<Rightarrow> (Some r, drop_forwarding env s4)))))"

section \<open>What the loop keeps\<close>

lemma continuous_loop_then:
  "continuous_loop wl env ch (Suc fuel) = (\<lambda>s. case continuous_round wl env ch s of (r, s1) \<Rightarrow>
     (case r of Inl e \<Rightarrow> \<lambda>s. (Some (Inl e), s) | Inr _ \<Rightarrow> continuous_loop wl env ch fuel) s1)"
  "continuous_loop wl env ch 0 = (\<lambda>s. (None, s))"
  by (auto simp: fun_eq_iff split: prod.splits sum.splits)

lemma scan_continuous_then:
  "scan_continuous errtext wl nl env ws fuel kind = (\<lambda>s. case select_ready env (StateChanged # ws) s of (q, s1) \<Rightarrow>
     (case q of None \<Rightarrow> \<lambda>s. (None, s) | Some (Inl e) \<Rightarrow> \<lambda>s. (Some (Inl e), s)
      | Some (Inr _) \<Rightarrow> \<lambda>s. case enable_forwarding env s of (p, s2) \<Rightarrow>
          (case p of Inl e \<Rightarrow> \<lambda>s. (Some (Inl e), s)
           | Inr ch \<Rightarrow> \<lambda>s. case scan_and_report errtext wl nl env True kind s of (r, s3) \<Rightarrow>
               (case r of Inl e \<Rightarrow> \<lambda>s. (Some (Inl e), drop_forwarding env s)
                | Inr _ \<Rightarrow> \<lambda>s. case continuous_loop wl env ch fuel s of (l, s4) \<Rightarrow>
                    (case l of None \<Rightarrow> \<lambda>s. (None, s) | Some x \<Rightarrow> \<lambda>s. (Some x, drop_forwarding env s)) s4) s3) s2) s1)"
  by (auto simp: scan_continuous_def wait_is_select fun_eq_iff split: prod.splits sum.splits option.splits)

context client_relation begin

lemma keeps_handle_block: "keeps R (handle_block wl env bh)"
  unfolding handle_block_def Let_def case_prod_beta
  by (auto intro!: keeps_seq keeps_pure keeps_own keeps_parts)

end

text \<open>A relation that the calls to the block sink keep too is kept by a whole continuous scan.\<close>

locale forwarding_relation = client_relation +
  assumes sink_call: "f \<in> {snd (enable_block_forwarding b), guard_drop b} \<union> range (\<lambda>ch. snd (recv ch b)) \<Longrightarrow>
      b = block_sink (env (clock s) (shared s)) \<Longrightarrow>
      R s (s\<lparr>shared := (env (clock s) (shared s))\<lparr>block_sink := f\<rparr>, clock := Suc (clock s)\<rparr>)"
begin

lemma keeps_sink_calls:
  "keeps R (enable_forwarding env)" "keeps R (recv_block env ch)" "R s (drop_forwarding env s)"
  by (auto simp: keeps_def enable_forwarding_def recv_block_def access_def drop_forwarding_def case_prod_beta Let_def
      intro!: sink_call)

lemma keeps_round: "keeps R (continuous_round wl env ch)"
  unfolding continuous_round_def next_block_def
  by (intro keeps_seq keeps_calls keeps_sink_calls)
    (auto intro: keeps_pure keeps_handle_block split: option.splits)

lemma keeps_loop: "keeps R (continuous_loop wl env ch fuel)"
proof (induction fuel)
  case 0
  show ?case unfolding continuous_loop_then by (rule keeps_pure)
next
  case (Suc fuel)
  show ?case unfolding continuous_loop_then
    by (rule keeps_then [OF trans keeps_round]) (auto simp: keeps_pure Suc split: sum.splits)
qed

lemma keeps_drop: "keeps R (\<lambda>s. (r, drop_forwarding env s))"
  by (simp add: keeps_def keeps_sink_calls)

lemma keeps_scan_continuous: "keeps R (scan_continuous errtext wl nl env ws fuel kind)"
  unfolding scan_continuous_then
  by (rule keeps_then [OF trans keeps_wait])
    (auto intro!: keeps_then [OF trans] keeps_pure keeps_drop keeps_scan_and_report keeps_loop keeps_sink_calls
      simp del: continuous_loop.simps split: sum.splits option.splits)

end

section \<open>It ends only by an error\<close>

lemma continuous_loop_error: "continuous_loop wl env ch fuel s = (Some r, s') \<Longrightarrow> \<exists>e. r = Inl e"
proof (induction fuel arbitrary: s)
  case (Suc fuel)
  then show ?case by (auto split: prod.splits sum.splits)
qed simp

lemma drop_forwarding_closed:
  "\<not> sender_alive ch (block_sink (shared (drop_forwarding env s)))"
  by (auto simp: drop_forwarding_def Let_def sender_alive_def guard_drop_def split: option.splits if_splits)

text \<open>
  C30. A continuous scan never returns \<open>Ok\<close>, and if it got past its wait and took the sink, the
  guard has closed the channel on every way out: blocks validated later are not retained.
\<close>

theorem scan_continuous_ends:
  fixes errtext :: "('x, 'n) ClientError \<Rightarrow> string"
  assumes "scan_continuous errtext wl nl env ws fuel kind s = (Some r, s')"
  shows "(\<exists>e. r = Inl e) \<and>
    ((\<exists>e s1. wait_until_ready env ws s = (Some (Inl e :: ('x, 'n) ClientError + unit), s1)) \<or>
     (\<exists>s1. enable_forwarding env (snd (wait_until_ready env ws s ::
         (('x, 'n) ClientError + unit) option \<times> _)) = (Inl PoisonedLock :: ('x, 'n) ClientError + nat, s1)) \<or>
     (\<forall>ch. \<not> sender_alive ch (block_sink (shared s'))))"
proof -
  obtain q :: "(('x, 'n) ClientError + unit) option" and s1 where
    w: "wait_until_ready env ws s = (q, s1)" by force
  obtain r2 :: "('x, 'n) ClientError + nat" and s2 where en: "enable_forwarding env s1 = (r2, s2)"
    by force
  have lock: "r2 = Inl e \<Longrightarrow> e = PoisonedLock" for e
    using en by (auto simp: enable_forwarding_def access_def Let_def split: prod.splits)
  from assms w en lock show ?thesis
    by (auto simp: scan_continuous_def drop_forwarding_closed
        split: option.splits sum.splits prod.splits dest: continuous_loop_error)
qed

section \<open>It follows the chain\<close>

text \<open>
  What the loop makes of the blocks it receives, without channel or cancellation: a block at or
  below the checkpoint is passed over, whatever its hash, and every other one is applied and
  published, relevant or not.
\<close>

fun follow ::
  "('b, 'c, 'g, 'i, 't) wallet_lib \<Rightarrow> ('b \<times> u32) list \<Rightarrow> 'c \<times> 'g \<Rightarrow> ('c \<times> 'g) \<times> ('t, 'c) Update list" where
  "follow wl [] (c, g) = ((c, g), [])"
| "follow wl ((b, h) # bhs) (c, g) =
     (if h \<le> cp_height wl c then follow wl bhs (c, g)
      else
        let g1 = snd (apply_block_relevant wl b h g);
            c1 = cp_insert wl c (h, block_hash wl b);
            (cg, us) = follow wl bhs (c1, graph_new wl (graph_index wl g1))
        in (cg, update_at wl c1 g1 # us))"

lemma follow_append:
  "follow wl (xs @ ys) cg =
     (let (cg1, us) = follow wl xs cg; (cg2, vs) = follow wl ys cg1 in (cg2, us @ vs))"
  by (induction wl xs cg rule: follow.induct) (auto simp: Let_def split: prod.splits)

text \<open>The heights of the checkpoints published, and that they only go up.\<close>

definition chain_height :: "('b, 'c, 'g, 'i, 't) wallet_lib \<Rightarrow> ('t, 'c) Update \<Rightarrow> u32" where
  "chain_height wl u = (case chain u of None \<Rightarrow> 0 | Some c \<Rightarrow> cp_height wl c)"

lemma follow_increasing:
  assumes "insert_extends wl"
  shows "sorted_wrt (<) (cp_height wl (fst cg) # map (chain_height wl) (snd (follow wl bhs cg)))"
  using assms
proof (induction wl bhs cg rule: follow.induct)
  case (2 wl b h bhs c g)
  show ?case
  proof (cases "h \<le> cp_height wl c")
    case True
    with 2 show ?thesis by simp
  next
    case False
    let ?c1 = "cp_insert wl c (h, block_hash wl b)"
    from False 2(3) have h: "cp_height wl ?c1 = h" by (simp add: insert_extends_def not_le)
    from 2(2) [OF False refl refl 2(3)] False show ?thesis
      by (auto simp: Let_def h chain_height_def update_at_def not_le split: prod.splits
          intro: less_trans)
  qed
qed simp

definition followed ::
  "('b, 'c, 'g, 'i, 't) wallet_lib \<Rightarrow> ('b \<times> u32) list \<Rightarrow>
   ('n, 'r, 'w, 'b, 'c, 'g, 't) Client \<Rightarrow> ('n, 'r, 'w, 'b, 'c, 'g, 't) Client \<Rightarrow> bool" where
  "followed wl bhs s s' \<longleftrightarrow>
     position s' = fst (follow wl bhs (position s)) \<and>
     sent s' = sent s @ map WalletUpdate (snd (follow wl bhs (position s)))"

lemma followed_Nil [simp]: "followed wl [] s s' \<longleftrightarrow> position s' = position s \<and> sent s' = sent s"
  by (cases "position s") (simp add: followed_def)

lemma followed_trans: "followed wl xs s t \<Longrightarrow> followed wl ys t u \<Longrightarrow> followed wl (xs @ ys) s u"
  by (auto simp: followed_def follow_append Let_def split: prod.splits)

lemma handle_block_followed:
  assumes "sender_kept env" and "channel_open s" and "handle_block wl env (b, h) s = (r, s')"
  shows "r = Inr ()" and "channel_open s'" and "followed wl [(b, h)] s s'"
proof -
  have "r = Inr () \<and> channel_open s' \<and> followed wl [(b, h)] s s'"
  proof (cases "h \<le> cp_height wl (checkpoint s)")
    case True
    with assms show ?thesis by (auto simp: handle_block_def bindE_def followed_def position_def)
  next
    case False
    let ?g = "snd (apply_block_relevant wl b h (tx_graph s))"
    have "publish wl env (h, block_hash wl b) (s\<lparr>tx_graph := ?g\<rparr>) = (r, s')"
      using False assms(3) by (simp add: handle_block_def bindE_def)
    from publish_open [OF assms(1) _ this] assms(2) False show ?thesis
      by (simp add: followed_def position_def Let_def)
  qed
  then show "r = Inr ()" and "channel_open s'" and "followed wl [(b, h)] s s'" by simp_all
qed

text \<open>
  What the other tasks validate: before the access numbered \<open>i\<close> the node validates the blocks
  \<open>news i\<close>, and the other tasks do nothing else to the sink.
\<close>

definition feed :: "('b \<times> u32) list \<Rightarrow> 'b forward \<Rightarrow> 'b forward" where
  "feed bhs f = foldl (\<lambda>f (b, h). validated b h f) f bhs"

definition feeds :: "('n, 'r, 'w, 'b) others \<Rightarrow> (nat \<Rightarrow> ('b \<times> u32) list) \<Rightarrow> bool" where
  "feeds env news \<longleftrightarrow> (\<forall>i sh. block_sink (env i sh) = feed (news i) (block_sink sh))"

definition news_between :: "(nat \<Rightarrow> ('b \<times> u32) list) \<Rightarrow> nat \<Rightarrow> nat \<Rightarrow> ('b \<times> u32) list" where
  "news_between news i j = concat (map news [i..<j])"

lemma news_between_self [simp]: "news_between news i i = []"
  by (simp add: news_between_def)

lemma news_between_Suc [simp]: "news_between news i (Suc i) = news i"
  by (simp add: news_between_def)

lemma news_between_append:
  "i \<le> j \<Longrightarrow> j \<le> k \<Longrightarrow> news_between news i j @ news_between news j k = news_between news i k"
  using upt_add_eq_append [of i j "k - j"] by (simp add: news_between_def)

lemma feed_puts: "feed bhs f = foldl (\<lambda>f bh. (case bh of (b, h) \<Rightarrow> validated b h) f) f bhs"
  unfolding feed_def by (rule arg_cong [where f = "\<lambda>g. foldl g f bhs"]) (auto simp: fun_eq_iff)

lemmas feed_attached = block_channel.puts [folded feed_puts]

text \<open>A client with an open forwarding channel, and the blocks it has not received yet.\<close>

definition listening :: "nat \<Rightarrow> ('n, 'r, 'w, 'b, 'c, 'g, 't) Client \<Rightarrow> bool" where
  "listening ch s \<longleftrightarrow> attached ch (block_sink (shared s))"

definition unread :: "nat \<Rightarrow> ('n, 'r, 'w, 'b, 'c, 'g, 't) Client \<Rightarrow> ('b \<times> u32) list" where
  "unread ch s = queue (block_sink (shared s)) ch"

lemma listening_env:
  assumes "feeds env news" and "listening ch s"
  shows "attached ch (block_sink (env i (shared s)))"
    "queue (block_sink (env i (shared s))) ch = unread ch s @ news i"
  using feed_attached [of ch "block_sink (shared s)" "news i"] assms
  by (simp_all add: feeds_def listening_def unread_def)

text \<open>A computation that leaves every block validated meanwhile in the queue.\<close>

definition heard ::
  "(nat \<Rightarrow> ('b \<times> u32) list) \<Rightarrow> nat \<Rightarrow>
   ('n, 'r, 'w, 'b, 'c, 'g, 't) Client \<Rightarrow> ('n, 'r, 'w, 'b, 'c, 'g, 't) Client \<Rightarrow> bool" where
  "heard news ch s s' \<longleftrightarrow> (listening ch s \<longrightarrow>
     listening ch s' \<and> clock s \<le> clock s' \<and>
     unread ch s' = unread ch s @ news_between news (clock s) (clock s'))"

definition hears ::
  "(nat \<Rightarrow> ('b \<times> u32) list) \<Rightarrow> nat \<Rightarrow> ('n, 'r, 'w, 'b, 'c, 'g, 't, 'x, 'a) client_comp \<Rightarrow> bool" where
  "hears news ch m \<longleftrightarrow> keeps (heard news ch) m"

lemma heard_trans:
  assumes "heard news ch s t" and "heard news ch t u"
  shows "heard news ch s u"
  unfolding heard_def
proof (rule impI)
  assume "listening ch s"
  with assms have l: "listening ch u" "clock s \<le> clock t" "clock t \<le> clock u"
    and u: "unread ch u = unread ch s @ news_between news (clock s) (clock t) @
      news_between news (clock t) (clock u)"
    by (auto simp: heard_def)
  from u have "unread ch u = unread ch s @ news_between news (clock s) (clock u)"
    unfolding news_between_append [OF l(2,3)] .
  with l show "listening ch u \<and> clock s \<le> clock u \<and>
      unread ch u = unread ch s @ news_between news (clock s) (clock u)" by simp
qed

lemma hearsD:
  assumes "hears news ch m" and "m s = (r, s')" and "listening ch s"
  shows "listening ch s'" and "clock s \<le> clock s'"
    and "unread ch s' = unread ch s @ news_between news (clock s) (clock s')"
  using keepsD [OF assms(1) [unfolded hears_def] assms(2)] assms(3) by (simp_all add: heard_def)

lemma listening_step:
  assumes "feeds env news" and "listening ch s"
    and "block_sink (shared s') = block_sink (env (clock s) (shared s))" and "clock s' = Suc (clock s)"
  shows "listening ch s' \<and> clock s \<le> clock s' \<and>
     unread ch s' = unread ch s @ news_between news (clock s) (clock s')"
  unfolding listening_def unread_def [of ch s'] assms(3,4)
  using listening_env [OF assms(1,2)] by simp

interpretation hearing: client_relation env "\<lambda>s s'. feeds env news \<longrightarrow> heard news ch s s'" for env news ch
proof
  fix s t u :: "('a, 'b, 'c, 'd, 'e, 'f, 'g) Client"
  show "(feeds env news \<longrightarrow> heard news ch s t) \<Longrightarrow> (feeds env news \<longrightarrow> heard news ch t u) \<Longrightarrow>
      feeds env news \<longrightarrow> heard news ch s u"
    using heard_trans by blast
next
  fix s :: "('a, 'b, 'c, 'd, 'e, 'f, 'g) Client" and c g es
  show "feeds env news \<longrightarrow> heard news ch s (s\<lparr>checkpoint := c, tx_graph := g, sent := es\<rparr>)"
    by (simp add: heard_def listening_def unread_def)
next
  fix s :: "('a, 'b, 'c, 'd, 'e, 'f, 'g) Client" and n :: "('a, 'b, 'c) Node"
  show "feeds env news \<longrightarrow>
      heard news ch s (s\<lparr>shared := (env (clock s) (shared s))\<lparr>node := n\<rparr>, clock := Suc (clock s)\<rparr>)"
    unfolding heard_def by (intro impI, rule listening_step) simp_all
qed

lemma hearsI: "feeds env news \<Longrightarrow> keeps (\<lambda>s s'. feeds env news \<longrightarrow> heard news ch s s') m \<Longrightarrow> hears news ch m"
  by (simp add: hears_def)

lemmas hears_check = hearsI [OF _ hearing.keeps_calls(2)]
lemmas hears_scan_and_report = hearsI [OF _ hearing.keeps_scan_and_report]
lemmas hears_handle_block = hearsI [OF _ hearing.keeps_handle_block]

text \<open>One receive takes the oldest unread block, and never finds the channel closed.\<close>

lemma recv_block_listening:
  assumes "feeds env news" and "sender_kept env" and "listening ch s" and "channel_open s"
    and "recv_block env ch s = (r, s')"
  shows "listening ch s' \<and> channel_open s' \<and> own s' = own s \<and> clock s' = Suc (clock s) \<and>
    (\<exists>b. r = Inr b \<and> (case b of None \<Rightarrow> [] | Some bh \<Rightarrow> [bh]) @ unread ch s' = unread ch s @ news (clock s))"
proof -
  let ?f = "block_sink (env (clock s) (shared s))"
  note le = listening_env [OF assms(1,3), of "clock s"]
  obtain b f where tk: "take_block ch ?f = (b, f)" by force
  from block_channel.take_live [OF le(1)] block_channel.take_pending [OF le(1)] tk
  have "attached ch f" and "(case b of None \<Rightarrow> [] | Some bh \<Rightarrow> [bh]) @ queue f ch = queue ?f ch"
    by simp_all
  with take_block_eq [OF le(1)] tk assms(5) le(2) channel_open_frame [OF assms(2,4), of "clock s"]
  show ?thesis
    by (cases b) (auto simp: recv_block_def access_def listening_def unread_def own_def channel_open_def)
qed

text \<open>What one poll of the loop, and any number of them, make of the unread blocks.\<close>

definition keeps_up ::
  "('b, 'c, 'g, 'i, 't) wallet_lib \<Rightarrow> (nat \<Rightarrow> ('b \<times> u32) list) \<Rightarrow> nat \<Rightarrow>
   ('n, 'r, 'w, 'b, 'c, 'g, 't) Client \<Rightarrow> ('n, 'r, 'w, 'b, 'c, 'g, 't) Client \<Rightarrow> bool" where
  "keeps_up wl news ch s s' \<longleftrightarrow> listening ch s' \<and> channel_open s' \<and> clock s \<le> clock s' \<and>
     (\<exists>bhs. followed wl bhs s s' \<and>
        bhs @ unread ch s' = unread ch s @ news_between news (clock s) (clock s'))"

lemma keeps_up_refl: "listening ch s \<Longrightarrow> channel_open s \<Longrightarrow> keeps_up wl news ch s s"
  by (auto simp: keeps_up_def intro!: exI [of _ "[]"])

lemma keeps_up_trans:
  assumes "keeps_up wl news ch s t" and "keeps_up wl news ch t u"
  shows "keeps_up wl news ch s u"
proof -
  from assms(1) obtain xs where 1: "clock s \<le> clock t" "followed wl xs s t"
    "xs @ unread ch t = unread ch s @ news_between news (clock s) (clock t)"
    by (auto simp: keeps_up_def)
  from assms(2) obtain ys where 2: "clock t \<le> clock u" "followed wl ys t u"
    "ys @ unread ch u = unread ch t @ news_between news (clock t) (clock u)"
    "listening ch u" "channel_open u"
    by (auto simp: keeps_up_def)
  have "(xs @ ys) @ unread ch u = xs @ unread ch t @ news_between news (clock t) (clock u)"
    using 2(3) by simp
  also have "\<dots> = unread ch s @ news_between news (clock s) (clock u)"
    using 1(3) news_between_append [OF 1(1) 2(1), of news] by (metis append_assoc)
  finally show ?thesis
    using followed_trans [OF 1(2) 2(2)] 1(1) 2 unfolding keeps_up_def by (meson le_trans)
qed

lemma keeps_up_idle:
  assumes "hears news ch m" and "listening ch s" and "m s = (r, s')" and "channel_open s'"
    and "own s' = own s"
  shows "keeps_up wl news ch s s'"
proof -
  from hearsD [OF assms(1,3,2)] assms(4) own_position [OF assms(5)] show ?thesis
    by (auto simp: keeps_up_def intro!: exI [of _ "[]"])
qed

lemma keeps_up_recv:
  assumes "feeds env news" and "sender_kept env" and "listening ch s" and "channel_open s"
    and "recv_block env ch s = (Inr b, s1)"
    and "followed wl (case b of None \<Rightarrow> [] | Some bh \<Rightarrow> [bh]) s1 s'"
    and "listening ch s1 \<Longrightarrow> listening ch s' \<and> clock s1 \<le> clock s' \<and>
      unread ch s' = unread ch s1 @ news_between news (clock s1) (clock s')"
    and "channel_open s'"
  shows "keeps_up wl news ch s s'"
proof -
  let ?bhs = "case b of None \<Rightarrow> [] | Some bh \<Rightarrow> [bh]"
  from recv_block_listening [OF assms(1-5)] have l: "listening ch s1" and o: "own s1 = own s"
    and c: "clock s1 = Suc (clock s)" and u: "?bhs @ unread ch s1 = unread ch s @ news (clock s)"
    by auto
  note rest = assms(7) [OF l]
  have "followed wl ?bhs s s'"
    using assms(6) own_position [OF o] by (simp add: followed_def)
  moreover have "?bhs @ unread ch s' = (?bhs @ unread ch s1) @ news_between news (clock s1) (clock s')"
    using rest by simp
  then have "?bhs @ unread ch s' =
      unread ch s @ (news_between news (clock s) (clock s1) @ news_between news (clock s1) (clock s'))"
    unfolding u by (simp add: c)
  moreover have "news_between news (clock s) (clock s1) @ news_between news (clock s1) (clock s') =
      news_between news (clock s) (clock s')"
    by (rule news_between_append) (use c rest in simp_all)
  ultimately show ?thesis using rest assms(8) c unfolding keeps_up_def by (metis Suc_leD)
qed

lemma continuous_round_keeps_up:
  fixes r :: "('x, 'n) ClientError + unit" and s :: "('n, 'r, 'w, 'b, 'c, 'g, 't) Client"
  assumes "feeds env news" and "sender_kept env" and "listening ch s" and "channel_open s"
    and "continuous_round wl env ch s = (r, s')"
  shows "keeps_up wl news ch s s' \<and> r \<in> {Inr (), Inl ScanAborted}"
proof -
  obtain q :: "('x, 'n) ClientError + unit" and s1 where cc: "check_cancelled env s = (q, s1)" by force
  note k1 = keeps_up_idle [OF hears_check [OF assms(1)] assms(3) cc
      check_cancelled_open [OF cc assms(2,4)] check_cancelled_own [OF cc]]
  show ?thesis
  proof (cases q)
    case (Inl e)
    with cc assms(5) k1 show ?thesis
      by (auto simp: continuous_round_def next_block_def bindE_def check_cancelled_eq split: if_splits)
  next
    case (Inr u)
    from k1 have l1: "listening ch s1" and o1: "channel_open s1" by (auto simp: keeps_up_def)
    obtain p :: "('x, 'n) ClientError + ('b \<times> u32) option" and s2 where
      rb: "recv_block env ch s1 = (p, s2)" by force
    from recv_block_listening [OF assms(1,2) l1 o1 rb] obtain b where
      p: "p = Inr b" and o2: "channel_open s2" by auto
    have "keeps_up wl news ch s1 s' \<and> r = Inr ()"
    proof (cases b)
      case None
      with cc Inr rb p assms(5) have "s' = s2" "r = Inr ()"
        by (auto simp: continuous_round_def next_block_def bindE_def)
      with keeps_up_recv [OF assms(1,2) l1 o1 rb [unfolded p], of wl s2] None o2 show ?thesis by simp
    next
      case (Some bh)
      obtain blk h where bh: "bh = (blk, h)" by force
      from cc Inr rb p Some bh assms(5) have hb: "handle_block wl env (blk, h) s2 = (r, s')"
        by (simp add: continuous_round_def next_block_def bindE_def)
      note hbf = handle_block_followed [OF assms(2) o2 hb]
      from keeps_up_recv [OF assms(1,2) l1 o1 rb [unfolded p], of wl s'] Some bh hbf
      show ?thesis using hearsD [OF hears_handle_block [OF assms(1)] hb] by auto
    qed
    with keeps_up_trans [OF k1] show ?thesis by blast
  qed
qed

lemma continuous_loop_keeps_up:
  fixes r :: "(('x, 'n) ClientError + unit) option" and s :: "('n, 'r, 'w, 'b, 'c, 'g, 't) Client"
  assumes "feeds env news" and "sender_kept env" and "listening ch s" and "channel_open s"
    and "continuous_loop wl env ch fuel s = (r, s')"
  shows "keeps_up wl news ch s s' \<and> r \<in> {None, Some (Inl ScanAborted)}"
  using assms(3-5)
proof (induction fuel arbitrary: s)
  case 0
  then show ?case using keeps_up_refl by simp
next
  case (Suc fuel)
  obtain q :: "('x, 'n) ClientError + unit" and s1 where
    rd: "continuous_round wl env ch s = (q, s1)" by force
  note k = continuous_round_keeps_up [OF assms(1,2) Suc.prems(1,2) rd]
  show ?case
  proof (cases q)
    case (Inl e)
    with Suc.prems(3) rd k show ?thesis by auto
  next
    case (Inr u)
    with Suc.prems(3) rd have "continuous_loop wl env ch fuel s1 = (r, s')" by simp
    with Suc.IH [of s1] k keeps_up_trans show ?thesis by (metis keeps_up_def)
  qed
qed

lemma feed_inv: "forward_inv f \<Longrightarrow> forward_inv (feed bhs f)"
  by (induction bhs arbitrary: f) (auto simp: feed_def validated_inv)

lemma enable_forwarding_listening:
  assumes "feeds env news" and "sender_kept env" and "forward_inv (block_sink (shared s))"
    and "channel_open s" and "enable_forwarding env s = (Inr ch, s')"
  shows "listening ch s' \<and> unread ch s' = [] \<and> channel_open s' \<and> own s' = own s"
proof -
  let ?f = "block_sink (env (clock s) (shared s))"
  have i: "forward_inv ?f" using assms(1,3) feed_inv by (simp add: feeds_def)
  from assms(5) obtain f where en: "enable_block_forwarding ?f = (Inr ch, f)"
    and s': "s' = s\<lparr>shared := (env (clock s) (shared s))\<lparr>block_sink := f\<rparr>, clock := Suc (clock s)\<rparr>"
    by (auto simp: enable_forwarding_def access_def Let_def split: prod.splits)
  from enable_opens [OF i en] enable_inv [OF i en] channel_open_frame [OF assms(2,4), of "clock s"] s'
  show ?thesis by (simp add: attached_def listening_def unread_def channel_open_def own_def)
qed

lemma scan_and_report_open:
  fixes errtext :: "('x, 'n) ClientError \<Rightarrow> string"
  assumes "sender_kept env" and "channel_open s"
    and "scan_and_report errtext wl nl env kg kind s = (r, s')"
  shows "channel_open s'"
proof -
  obtain q :: "('x, 'n) ClientError + unit" and s1 where si: "scan_inner wl nl env kind s = (q, s1)"
    by force
  from scan_inner_trail [OF assms(1,2) si] have o: "channel_open s1" by blast
  from assms(3) si have "bindE (send_event env (scan_end errtext kg q)) (\<lambda>_. liftE q) s1 = (r, s')"
    by (simp add: scan_and_report_def)
  then show ?thesis
    using channel_open_frame [OF assms(1) o, of "clock s1"]
    by (auto simp: bindE_def send_event_open [OF assms(1) o] channel_open_def)
qed

text \<open>
  From the moment forwarding is enabled, and through the scan, every block the node validates is
  followed, once and in the order of validation, or is still unread; the loop can end only by a
  cancellation.
\<close>

lemma no_block_missed:
  fixes errtext :: "('x, 'n) ClientError \<Rightarrow> string"
    and r :: "(('x, 'n) ClientError + unit) option"
    and s :: "('n, 'r, 'w, 'b, 'c, 'g, 't) Client"
  assumes "feeds env news" and "sender_kept env" and "forward_inv (block_sink (shared s))"
    and "channel_open s" and "enable_forwarding env s = (Inr ch :: ('x, 'n) ClientError + nat, s1)"
    and "scan_and_report errtext wl nl env True kind s1 = (q, s2)"
    and "continuous_loop wl env ch fuel s2 = (r, s3)"
  shows "(\<exists>bhs. bhs @ unread ch s3 = news_between news (clock s1) (clock s3) \<and> followed wl bhs s2 s3) \<and>
    r \<in> {None, Some (Inl ScanAborted)}"
proof -
  from enable_forwarding_listening [OF assms(1-5)] have l1: "listening ch s1" and u1: "unread ch s1 = []"
    and o1: "channel_open s1" by simp_all
  from hearsD [OF hears_scan_and_report [OF assms(1)] assms(6) l1] u1 have l2: "listening ch s2"
    and c2: "clock s1 \<le> clock s2" and u2: "unread ch s2 = news_between news (clock s1) (clock s2)"
    by simp_all
  from scan_and_report_open [OF assms(2) o1 assms(6)] have o2: "channel_open s2" .
  from continuous_loop_keeps_up [OF assms(1,2) l2 o2 assms(7)] have c3: "clock s2 \<le> clock s3"
    and fin: "r \<in> {None, Some (Inl ScanAborted)}"
    and "\<exists>bhs. followed wl bhs s2 s3 \<and>
      bhs @ unread ch s3 = unread ch s2 @ news_between news (clock s2) (clock s3)"
    by (auto simp: keeps_up_def)
  then show ?thesis unfolding u2 using news_between_append [OF c2 c3] by metis
qed

text \<open>The four ways of a continuous scan.\<close>

lemma scan_continuous_cases [consumes 1]:
  fixes errtext :: "('x, 'n) ClientError \<Rightarrow> string" and s :: "('n, 'r, 'w, 'b, 'c, 'g, 't) Client"
  assumes "scan_continuous errtext wl nl env ws fuel kind s = (r, s')"
  obtains (Waiting) "wait_until_ready env ws s = (r, s')" "r \<noteq> Some (Inr ())"
  | (Locked) s1 e where "wait_until_ready env ws s = (Some (Inr ()) :: (('x, 'n) ClientError + unit) option, s1)"
      "enable_forwarding env s1 = (Inl e :: ('x, 'n) ClientError + nat, s')" "r = Some (Inl e)"
  | (Failed) s1 ch s2 e s3 where
      "wait_until_ready env ws s = (Some (Inr ()) :: (('x, 'n) ClientError + unit) option, s1)"
      "enable_forwarding env s1 = (Inr ch :: ('x, 'n) ClientError + nat, s2)"
      "scan_and_report errtext wl nl env True kind s2 = (Inl e, s3)" "r = Some (Inl e)" "s' = drop_forwarding env s3"
  | (Looping) s1 ch s2 s3 s4 where
      "wait_until_ready env ws s = (Some (Inr ()) :: (('x, 'n) ClientError + unit) option, s1)"
      "enable_forwarding env s1 = (Inr ch :: ('x, 'n) ClientError + nat, s2)"
      "scan_and_report errtext wl nl env True kind s2 = (Inr (), s3)"
      "continuous_loop wl env ch fuel s3 = (r, s4)" "s' = (if r = None then s4 else drop_forwarding env s4)"
proof -
  obtain q :: "(('x, 'n) ClientError + unit) option" and s1 where w: "wait_until_ready env ws s = (q, s1)"
    by force
  show ?thesis
  proof (cases "q = Some (Inr ())")
    case False
    with assms w have "(r, s') = (q, s1)" by (auto simp: scan_continuous_def split: option.splits sum.splits)
    with w False Waiting show ?thesis by simp
  next
    case True
    obtain p :: "('x, 'n) ClientError + nat" and s2 where en: "enable_forwarding env s1 = (p, s2)" by force
    show ?thesis
    proof (cases p)
      case (Inl e)
      with assms w True en Locked show ?thesis by (simp add: scan_continuous_def)
    next
      case (Inr ch)
      obtain x s3 where sr: "scan_and_report errtext wl nl env True kind s2 = (x, s3)" by force
      show ?thesis
      proof (cases x)
        case (Inl e)
        with assms w True en Inr sr Failed show ?thesis by (simp add: scan_continuous_def)
      next
        case (Inr u)
        obtain l :: "(('x, 'n) ClientError + unit) option" and s4 where lp: "continuous_loop wl env ch fuel s3 = (l, s4)"
          by force
        with assms w True en \<open>p = Inr ch\<close> sr Inr have
          "(case l of None \<Rightarrow> (None, s4) | Some x \<Rightarrow> (Some x, drop_forwarding env s4)) = (r, s')"
          by (simp add: scan_continuous_def split: option.splits)
        then have "l = r" "s' = (if r = None then s4 else drop_forwarding env s4)" by (auto split: option.splits)
        with Looping [OF w [unfolded True] en [unfolded \<open>p = Inr ch\<close>]] sr Inr lp show ?thesis by simp
      qed
    qed
  qed
qed

interpretation sinking: client_relation env
  "\<lambda>s s'. feeds env news \<longrightarrow> forward_inv (block_sink (shared s)) \<longrightarrow> forward_inv (block_sink (shared s'))" for env news
  by unfold_locales (auto simp: feeds_def feed_inv)

lemma enable_forwarding_quiet:
  assumes "enable_forwarding env s = (Inl e, s')"
  shows "own s' = own s \<and> e = PoisonedLock"
  using assms by (auto simp: enable_forwarding_def access_def Let_def split: prod.splits)

lemma drop_forwarding_own [simp]: "own (drop_forwarding env s) = own s"
  by (simp add: drop_forwarding_def Let_def)

text \<open>
  The events of a continuous scan, while the node is not shut down, by how far it got.
\<close>

lemma continuous_trail:
  fixes errtext :: "('x, 'n) ClientError \<Rightarrow> string" and nl :: "('x, 'w, 'b) node_lib"
    and s :: "('n, 'r, 'w, 'b, 'c, 'g, 't) Client"
  assumes "feeds env news" and "sender_kept env" and "forward_inv (block_sink (shared s))" and "channel_open s"
    and "scan_continuous errtext wl nl env ws fuel kind s = (r, s')"
  shows "(sent s' = sent s \<and> position s' = position s \<and>
      r \<in> {None, Some (Inl ScanAborted), Some (Inl ClientError.UnresponsiveNode), Some (Inl PoisonedLock)}) \<or>
    (\<exists>us e. r = Some (Inl e) \<and> accounted wl nl us s s' \<and>
      sent s' = sent s @ map WalletUpdate us @ [ScanError (errtext e)]) \<or>
    (\<exists>us t bhs i j. r \<in> {None, Some (Inl ScanAborted)} \<and> accounted wl nl us s t \<and>
      prefix bhs (news_between news i j) \<and> position s' = fst (follow wl bhs (position t)) \<and>
      sent s' = sent s @ map WalletUpdate us @ [ScanFinished True] @
        map WalletUpdate (snd (follow wl bhs (position t))))"
  using assms(5)
proof (cases rule: scan_continuous_cases)
  case Waiting
  from wait_until_ready_result [OF assms(2,4) Waiting(1)] Waiting(2) show ?thesis
    by (auto simp: justified_def split: option.splits sum.splits)
next
  case (Locked s1 e)
  from wait_until_ready_result [OF assms(2,4) Locked(1)] enable_forwarding_quiet [OF Locked(2)] Locked(3)
  show ?thesis by (auto dest: own_position)
next
  case (Failed s1 ch s2 e s3)
  from wait_until_ready_result [OF assms(2,4) Failed(1)] have o1: "channel_open s1"
    and p1: "position s1 = position s" "sent s1 = sent s" by simp_all
  from keepsD [OF sinking.keeps_wait Failed(1) [unfolded wait_is_select]] assms(1,3)
  have i1: "forward_inv (block_sink (shared s1))" by blast
  from enable_forwarding_listening [OF assms(1,2) i1 o1 Failed(2)]
  have o2: "channel_open s2" and p2: "position s2 = position s" "sent s2 = sent s"
    using p1 by (auto dest: own_position)
  from scan_and_report_trail [OF assms(2) o2 Failed(3)] obtain us where
    "sent s3 = sent s2 @ map WalletUpdate us @ [ScanError (errtext e)]" "accounted wl nl us s2 s3"
    by (auto simp: scan_end_def)
  with Failed(4,5) p2 own_position [OF drop_forwarding_own, of env s3] accounted_cong [of s2 s s3 s' wl nl us]
  show ?thesis by auto
next
  case (Looping s1 ch s2 s3 s4)
  from wait_until_ready_result [OF assms(2,4) Looping(1)] have o1: "channel_open s1"
    and p1: "position s1 = position s" "sent s1 = sent s" by simp_all
  from keepsD [OF sinking.keeps_wait Looping(1) [unfolded wait_is_select]] assms(1,3)
  have i1: "forward_inv (block_sink (shared s1))" by blast
  from enable_forwarding_listening [OF assms(1,2) i1 o1 Looping(2)]
  have o2: "channel_open s2" and p2: "position s2 = position s" "sent s2 = sent s"
    using p1 by (auto dest: own_position)
  from scan_and_report_trail [OF assms(2) o2 Looping(3)] obtain us where
    us: "sent s3 = sent s2 @ map WalletUpdate us @ [ScanFinished True]" "accounted wl nl us s2 s3"
    by (auto simp: scan_end_def)
  from no_block_missed [OF assms(1,2) i1 o1 Looping(2,3,4)] obtain bhs where
    bhs: "bhs @ unread ch s4 = news_between news (clock s2) (clock s4)" "followed wl bhs s3 s4"
    and fin: "r \<in> {None, Some (Inl ScanAborted)}" by blast
  have "prefix bhs (news_between news (clock s2) (clock s4))" by (rule prefixI [OF bhs(1) [symmetric]])
  moreover have "accounted wl nl us s s3" using us(2) accounted_cong [OF p2(1) refl, of wl nl us s3] by blast
  moreover have "position s' = position s4" "sent s' = sent s4"
    using Looping(5) own_position [OF drop_forwarding_own, of env s4] by simp_all
  ultimately have "r \<in> {None, Some (Inl ScanAborted)} \<and> accounted wl nl us s s3 \<and>
      prefix bhs (news_between news (clock s2) (clock s4)) \<and> position s' = fst (follow wl bhs (position s3)) \<and>
      sent s' = sent s @ map WalletUpdate us @ [ScanFinished True] @
        map WalletUpdate (snd (follow wl bhs (position s3)))"
    using us(1) bhs(2) p2(2) fin unfolding followed_def by simp
  then show ?thesis by blast
qed

text \<open>
  C31. The checkpoints of the updates a continuous scan publishes for new blocks go strictly up,
  from above the checkpoint the loop started with.
\<close>

theorem continuous_heights_increase:
  fixes r :: "(('x, 'n) ClientError + unit) option" and s :: "('n, 'r, 'w, 'b, 'c, 'g, 't) Client"
  assumes "insert_extends wl" and "feeds env news" and "sender_kept env" and "listening ch s"
    and "channel_open s" and "continuous_loop wl env ch fuel s = (r, s')"
  shows "\<exists>us. sent s' = sent s @ map WalletUpdate us \<and>
    sorted_wrt (<) (cp_height wl (checkpoint s) # map (chain_height wl) us)"
proof -
  from continuous_loop_keeps_up [OF assms(2-6)] obtain bhs where "followed wl bhs s s'"
    by (auto simp: keeps_up_def)
  with follow_increasing [OF assms(1), of "position s" bhs] show ?thesis
    by (auto simp: followed_def position_def)
qed

text \<open>A block at a known height is passed over whatever its hash: the loop follows no reorganisation.\<close>

lemma known_height_ignored:
  "h \<le> cp_height wl (checkpoint s) \<Longrightarrow> handle_block wl env (b, h) s = (Inr (), s)"
  by (simp add: handle_block_def bindE_def)

text \<open>The node validates a block at height 10 before access number 14, that is during the loop.\<close>

definition one_block :: "(nat, nat, unit, BlockHash \<times> bool) others" where
  "one_block i sh = (if i = 14 then sh\<lparr>block_sink := validated (77, True) 10 (block_sink sh)\<rparr> else sh)"

definition one_block_news :: "nat \<Rightarrow> ((BlockHash \<times> bool) \<times> u32) list" where
  "one_block_news i = (if i = 14 then [((77, True), 10)] else [])"

lemma one_block_feeds: "feeds one_block one_block_news" and one_block_kept: "sender_kept one_block"
  by (auto simp: feeds_def sender_kept_def one_block_def one_block_news_def feed_def)

abbreviation one_block_enabled ::
  "((nat, nat) ClientError + nat) \<times>
   (nat, nat, unit, BlockHash \<times> bool, u32, u32 \<times> BlockHash list, BlockHash list) Client" where
  "one_block_enabled \<equiv> enable_forwarding one_block sample_start"

lemma one_block_enabled: "one_block_enabled = (Inr 0, snd one_block_enabled)"
  by (simp add: enable_forwarding_def access_def Let_def one_block_def sample_client_def
      enable_block_forwarding_def no_forwarding_def)

lemma sample_start_forward: "forward_inv (block_sink (shared sample_start))"
  by (simp add: sample_client_def forward_inv_init)

abbreviation one_block_followed ::
  "((nat, nat) ClientError + unit) option \<times>
   (nat, nat, unit, BlockHash \<times> bool, u32, u32 \<times> BlockHash list, BlockHash list) Client" where
  "one_block_followed \<equiv> continuous_loop sample_lib one_block 0 1 (snd one_block_enabled\<lparr>clock := 13\<rparr>)"

lemma one_block_followed:
  "sent (snd one_block_followed) =
     [WalletUpdate \<lparr>tx_update = [77], last_active_indices = Map.empty, chain = Some 10\<rparr>]"
  by (simp add: continuous_round_def next_block_def recv_block_def access_def check_cancelled_eq
      bindE_def Let_def enable_forwarding_def enable_block_forwarding_def no_forwarding_def
      one_block_def sample_client_def validated_def on_block_def recv_def handle_block_def publish_eq
      send_event_def lock_event_tx_eq update_at_def sample_lib_def)

theorem continuous_heights_increase_witness:
  "\<exists>us. sent (snd one_block_followed) = map WalletUpdate us \<and> map (chain_height sample_lib) us = [10] \<and>
     sorted_wrt (<) (5 # map (chain_height sample_lib) us)"
proof -
  let ?s = "snd one_block_enabled\<lparr>clock := 13\<rparr>"
  note en = enable_forwarding_listening [OF one_block_feeds one_block_kept sample_start_forward
      sample_start_simps(1) one_block_enabled]
  then have "listening 0 ?s" "channel_open ?s" by (simp_all add: listening_def)
  from continuous_heights_increase [OF sample_insert_extends one_block_feeds one_block_kept this
      prod.collapse [symmetric], of 1] obtain us where
    us: "sent (snd one_block_followed) = sent ?s @ map WalletUpdate us"
    and st: "sorted_wrt (<) (cp_height sample_lib (checkpoint ?s) # map (chain_height sample_lib) us)"
    by blast
  have cp: "cp_height sample_lib c = c" for c by (simp add: sample_lib_def)
  from en have s: "sent ?s = []" "checkpoint ?s = 5" by (simp_all add: own_def)
  from us s one_block_followed have u: "sent (snd one_block_followed) = map WalletUpdate us"
    and "us = [\<lparr>tx_update = [77], last_active_indices = Map.empty, chain = Some 10\<rparr>]"
    by (auto simp del: One_nat_def continuous_loop.simps)
  then have "map (chain_height sample_lib) us = [10]" by (simp add: chain_height_def cp)
  with u st s(2) show ?thesis unfolding cp by metis
qed

text \<open>A continuous scan whose token is cancelled while the filters are matched.\<close>

abbreviation cut_off ::
  "((nat, nat) ClientError + unit) option \<times>
   (nat, nat, unit, BlockHash \<times> bool, u32, u32 \<times> BlockHash list, BlockHash list) Client" where
  "cut_off \<equiv> scan_continuous (\<lambda>_ :: (nat, nat) ClientError. ''aborted'') sample_lib sample_node_lib
     (cancels_at 5) [] 9 Sync sample_start"

lemma cut_off: "fst cut_off = Some (Inl ScanAborted) \<and> sent (snd cut_off) = [ScanError ''aborted'']"
  by (simp add: scan_continuous_def wait_until_ready_def borrow_state_eq cancels_at_def
      enable_forwarding_def access_def enable_block_forwarding_def no_forwarding_def
      scan_and_report_def scan_inner_eqs sample_lib_def sample_node_lib_def sample_client_def scan_end_def
      drop_forwarding_def)

theorem scan_continuous_ends_witness:
  "\<exists>r s'. cut_off = (Some r, s') \<and> (\<exists>e. r = Inl e) \<and> (\<forall>ch. \<not> sender_alive ch (block_sink (shared s')))"
proof -
  obtain s' where eq: "cut_off = (Some (Inl ScanAborted), s')"
    using cut_off by (metis prod.collapse)
  have w: "wait_until_ready (cancels_at 5) [] sample_start =
      ((Some (Inr ()) :: ((nat, nat) ClientError + unit) option), sample_start\<lparr>clock := 1\<rparr>)"
    by (simp add: wait_until_ready_def borrow_state_eq sample_client_def cancels_at_def)
  have en: "fst (enable_forwarding (cancels_at 5) (sample_start\<lparr>clock := 1\<rparr>)) =
      (Inr 0 :: (nat, nat) ClientError + nat)"
    by (simp add: enable_forwarding_def access_def Let_def cancels_at_def sample_client_def
      enable_block_forwarding_def no_forwarding_def)
  from scan_continuous_ends [OF eq] eq en show ?thesis unfolding w by auto
qed

end
