(* ===== verification/System.thy ===== *)
theory System
  imports Lifecycle Continuous
begin

text \<open>
  The client of \<open>src/src/client/mod.rs\<close> next to the other tasks of the process: the tasks of its
  node (\<open>src/src/node/mod.rs\<close>), the watcher that \<open>Client::new\<close> spawns, a holder of its
  cancellation token such as a \<open>ScanHandle\<close>, and the node's validation of blocks.

  The theories of the client let the other tasks do anything between two accesses to what is
  shared, and state what they rely on. Here the other tasks are the ones the code has, one
  statement per step and in any order, and what the client relies on is proved of them.
\<close>

section \<open>The other tasks\<close>

text \<open>What the errors of the libraries carry does not matter to the node's tasks: they are units.\<close>

datatype watcher_pc = WatcherWaits | WatcherDrops | WatcherDone

record ('n, 'r, 'w, 'b) system =
  life :: "('n, 'r, 'w, unit) sys"
  forwarded :: "'b forward"
  slot :: "bool mutex"
  cancelled :: bool
  watcher_at :: watcher_pc

text \<open>What the client sees of it.\<close>

definition view :: "('n, 'r, 'w, 'b) system \<Rightarrow> ('n, 'r, 'w, 'b) shared" where
  "view S = \<lparr>node = Node.truncate (life S), block_sink = forwarded S, event_tx = slot S,
     client_token = cancelled S\<rparr>"

text \<open>
  A step of another task, and the blocks that were validated in it. The watcher waits for the
  node's token, then cancels the client's, then takes the sender.
\<close>

inductive other_step ::
  "bool \<Rightarrow> ('n, 'r, 'w, 'b) system \<Rightarrow> ('b \<times> u32) list \<Rightarrow> ('n, 'r, 'w, 'b) system \<Rightarrow> bool"
  for oc where
  node_steps: "step oc (life S) l \<Longrightarrow> other_step oc S [] (S\<lparr>life := l\<rparr>)"
| watcher_cancels: "watcher_at S = WatcherWaits \<Longrightarrow> cancellation_token (life S) \<Longrightarrow>
    other_step oc S [] (S\<lparr>cancelled := client_token (watcher_cancel (view S)), watcher_at := WatcherDrops\<rparr>)"
| watcher_drops: "watcher_at S = WatcherDrops \<Longrightarrow>
    other_step oc S [] (S\<lparr>slot := event_tx (watcher_take (view S)), watcher_at := WatcherDone\<rparr>)"
| handle_cancels: "other_step oc S [] (S\<lparr>cancelled := True\<rparr>)"
| block_validated: "other_step oc S [(b, h)] (S\<lparr>forwarded := validated b h (forwarded S)\<rparr>)"

inductive other_steps ::
  "bool \<Rightarrow> ('n, 'r, 'w, 'b) system \<Rightarrow> ('b \<times> u32) list \<Rightarrow> ('n, 'r, 'w, 'b) system \<Rightarrow> bool"
  for oc where
  none: "other_steps oc S [] S"
| more: "other_step oc S bhs T \<Longrightarrow> other_steps oc T bhs' U \<Longrightarrow> other_steps oc S (bhs @ bhs') U"

text \<open>The watcher has moved only if the node's token is cancelled, and has cancelled the client's.\<close>

definition system_ok :: "('n, 'r, 'w, 'b) system \<Rightarrow> bool" where
  "system_ok S \<longleftrightarrow> (watcher_at S \<noteq> WatcherWaits \<longrightarrow> cancellation_token (life S) \<and> cancelled S)"

lemma view_simps [simp]:
  "cancellation_token (node (view S)) = cancellation_token (life S)" "config (node (view S)) = config (life S)"
  "state (node (view S)) = state (life S)" "block_sink (view S) = forwarded S" "event_tx (view S) = slot S"
  "client_token (view S) = cancelled S"
  by (simp_all add: view_def Node.truncate_def)

lemma watcher_simps [simp]:
  "client_token (watcher_cancel (view S)) = (cancelled S \<or> cancellation_token (life S))"
  "poisoned (event_tx (watcher_take (view S))) = poisoned (slot S)"
  by (simp_all add: watcher_cancel_def watcher_take_def take_sender_def)

lemma watcher_take_guarded: "guarded (event_tx (watcher_take (view S))) \<Longrightarrow> guarded (slot S)"
  by (auto simp: watcher_take_def take_sender_def split: if_splits)

lemma step_frame: "step oc s t \<Longrightarrow> config t = config s \<and> (cancellation_token s \<longrightarrow> cancellation_token t)"
proof (induction rule: step.induct)
  case (run_goes_on now s t)
  then show ?case by (auto simp: run_return_def split: run_pc.splits option.splits)
next
  case (shutdown_goes_on s t)
  then show ?case by (auto split: shutdown_pc.splits)
qed (auto simp: step_defs split: option.splits prod.splits)

text \<open>What the steps of the others do to the client's share.\<close>

definition moved :: "('n, 'r, 'w, 'b) shared \<Rightarrow> ('b \<times> u32) list \<Rightarrow> ('n, 'r, 'w, 'b) shared \<Rightarrow> bool" where
  "moved sh bhs sh' \<longleftrightarrow>
     (client_token sh \<longrightarrow> client_token sh') \<and>
     (cancellation_token (node sh) \<longrightarrow> cancellation_token (node sh')) \<and>
     (guarded (event_tx sh') \<longrightarrow> guarded (event_tx sh)) \<and>
     (event_tx sh' \<noteq> event_tx sh \<longrightarrow> cancellation_token (node sh') \<and> client_token sh') \<and>
     (poisoned (event_tx sh') = poisoned (event_tx sh)) \<and>
     block_sink sh' = feed bhs (block_sink sh) \<and> config (node sh') = config (node sh)"

lemma feed_simps [simp]: "feed [] f = f" "feed (xs @ ys) f = feed ys (feed xs f)"
  by (simp_all add: feed_def)

lemma moved_refl: "moved sh [] sh"
  by (simp add: moved_def)

lemma moved_trans: "moved sh xs sh' \<Longrightarrow> moved sh' ys sh'' \<Longrightarrow> moved sh (xs @ ys) sh''"
  by (auto simp: moved_def)

lemma other_step_moved:
  assumes "other_step oc S bhs T" and "system_ok S"
  shows "moved (view S) bhs (view T) \<and> system_ok T"
  using assms
proof (induction rule: other_step.induct)
  case (node_steps S l)
  with step_frame show ?case by (auto simp: moved_def system_ok_def)
next
  case (watcher_drops S)
  then show ?case by (auto simp: moved_def system_ok_def dest: watcher_take_guarded)
qed (auto simp: moved_def system_ok_def feed_def)

lemma other_steps_moved:
  "other_steps oc S bhs T \<Longrightarrow> system_ok S \<Longrightarrow> moved (view S) bhs (view T) \<and> system_ok T"
proof (induction rule: other_steps.induct)
  case (none S)
  then show ?case by (simp add: moved_refl)
next
  case (more S bhs T bhs' U)
  with other_step_moved [OF more.hyps(1)] moved_trans show ?case by blast
qed

text \<open>
  The interference of these tasks: before its access numbered \<open>i\<close> they make some steps, from a
  system that looks to the client as the share does, and validate the blocks \<open>news i\<close>.
\<close>

definition system_env ::
  "bool \<Rightarrow> ('n, 'r, 'w, 'b) others \<Rightarrow> (nat \<Rightarrow> ('b \<times> u32) list) \<Rightarrow> bool" where
  "system_env oc env news \<longleftrightarrow> (\<forall>i sh. \<exists>S T :: ('n, 'r, 'w, 'b) system.
     system_ok S \<and> view S = sh \<and> other_steps oc S (news i) T \<and> view T = env i sh)"

lemma system_env_moved: "system_env oc env news \<Longrightarrow> moved sh (news i) (env i sh)"
  using other_steps_moved unfolding system_env_def by metis


lemma system_env_guarantees:
  assumes "system_env oc env news"
  shows "cancel_sticks env" and "feeds env news"
    and "cancellation_token (node sh) \<Longrightarrow> cancellation_token (node (env i sh))"
    and "\<not> cancellation_token (node (env i sh)) \<Longrightarrow> event_tx (env i sh) = event_tx sh"
    and "\<not> guarded (event_tx sh) \<Longrightarrow> \<not> guarded (event_tx (env i sh))"
  using system_env_moved [OF assms] by (auto simp: cancel_sticks_def feeds_def moved_def)

section \<open>Until the node is shut down\<close>

definition shut :: "('n, 'r, 'w, 'b, 'c, 'g, 't) Client \<Rightarrow> bool" where
  "shut s \<longleftrightarrow> cancellation_token (node (shared s))"

text \<open>
  The same interference, but without the watcher's last step. The client cannot tell them apart
  before the node's token is cancelled.
\<close>

definition calm :: "('n, 'r, 'w, 'b) others \<Rightarrow> ('n, 'r, 'w, 'b) others" where
  "calm env i sh =
     (if cancellation_token (node (env i sh)) then (env i sh)\<lparr>event_tx := event_tx sh\<rparr> else env i sh)"

lemma calm_guarantees:
  assumes "system_env oc env news"
  shows "sender_kept (calm env)" "feeds (calm env) news" "cancel_sticks (calm env)"
    "cancellation_token (node (calm env i sh)) = cancellation_token (node (env i sh))"
    "\<not> cancellation_token (node (env i sh)) \<Longrightarrow> calm env i sh = env i sh"
  using system_env_guarantees [OF assms] by (auto simp: sender_kept_def feeds_def cancel_sticks_def calm_def)

definition agrees ::
  "(('n, 'r, 'w, 'b, 'c, 'g, 't) Client \<Rightarrow> 'a \<times> ('n, 'r, 'w, 'b, 'c, 'g, 't) Client) \<Rightarrow>
   (('n, 'r, 'w, 'b, 'c, 'g, 't) Client \<Rightarrow> 'a \<times> ('n, 'r, 'w, 'b, 'c, 'g, 't) Client) \<Rightarrow> bool" where
  "agrees m m' \<longleftrightarrow>
     (\<forall>s r s'. m s = (r, s') \<longrightarrow> (shut s \<longrightarrow> shut s') \<and> (\<not> shut s' \<longrightarrow> m' s = (r, s')))"

lemma agreesI:
  "(\<And>s r s'. m s = (r, s') \<Longrightarrow> (shut s \<longrightarrow> shut s') \<and> (\<not> shut s' \<longrightarrow> m' s = (r, s'))) \<Longrightarrow> agrees m m'"
  by (simp add: agrees_def)

lemma agreesD:
  assumes "agrees m m'" and "m s = (r, s')" and "\<not> shut s'"
  shows "m' s = (r, s')" and "\<not> shut s"
  using assms by (auto simp: agrees_def)

lemma agrees_shut: "agrees m m' \<Longrightarrow> m s = (r, s') \<Longrightarrow> shut s \<Longrightarrow> shut s'"
  by (auto simp: agrees_def)

text \<open>Sequencing, with whatever the second part makes of the result of the first.\<close>

lemma agrees_then:
  assumes "agrees m m'" and "\<And>r. agrees (k r) (k' r)"
  shows "agrees (\<lambda>s. case m s of (r, s1) \<Rightarrow> k r s1) (\<lambda>s. case m' s of (r, s1) \<Rightarrow> k' r s1)"
proof (rule agreesI)
  fix s r s'
  assume eq: "(case m s of (r, s1) \<Rightarrow> k r s1) = (r, s')"
  obtain q s1 where m: "m s = (q, s1)" by force
  with eq have k: "k q s1 = (r, s')" by simp
  from agrees_shut [OF assms(1) m] agrees_shut [OF assms(2) k] agreesD [OF assms(2) k] agreesD(1) [OF assms(1) m]
  show "(shut s \<longrightarrow> shut s') \<and> (\<not> shut s' \<longrightarrow> (case m' s of (r, s1) \<Rightarrow> k' r s1) = (r, s'))" by auto
qed

lemma agrees_return: "agrees (\<lambda>s. (r, s)) (\<lambda>s. (r, s))"
  by (simp add: agrees_def)

lemma agrees_bind:
  assumes "agrees m m'" and "\<And>x. agrees (f x) (f' x)"
  shows "agrees (bindE m f) (bindE m' f')"
  unfolding bindE_then
  by (intro agrees_then assms(1)) (use assms(2) in \<open>auto simp: agrees_return split: sum.splits\<close>)

lemma agrees_access:
  assumes "system_env oc env news"
    and "\<And>sh. cancellation_token (node (snd (f sh))) = cancellation_token (node sh)"
  shows "agrees (access env f) (access (calm env) f)"
proof (rule agreesI)
  fix s r s'
  assume eq: "access env f s = (r, s')"
  obtain q sh where f: "f (env (clock s) (shared s)) = (q, sh)" by force
  with eq have s': "r = q" "s' = s\<lparr>shared := sh, clock := Suc (clock s)\<rparr>"
    by (simp_all add: access_def)
  with f assms(2) [of "env (clock s) (shared s)"] have
    k: "shut s' = cancellation_token (node (env (clock s) (shared s)))" by (simp add: shut_def)
  with system_env_guarantees(3) [OF assms(1)] calm_guarantees(5) [OF assms(1)] f s'
  show "(shut s \<longrightarrow> shut s') \<and> (\<not> shut s' \<longrightarrow> access (calm env) f s = (r, s'))"
    by (auto simp: access_def shut_def)
qed

lemma agrees_on_node:
  assumes "system_env oc env news"
    and "\<And>n. cancellation_token (snd (call n)) = cancellation_token n"
  shows "agrees (on_node env call) (on_node (calm env) call)"
  unfolding on_node_def using assms(2)
  by (intro agrees_access [OF assms(1)]) (simp add: case_prod_beta)

lemma agrees_calls:
  assumes "system_env oc env news"
  shows "agrees (ask_node env g) (ask_node (calm env) g)"
    "agrees (check_cancelled env) (check_cancelled (calm env))"
    "agrees (lock_event_tx env) (lock_event_tx (calm env))"
    "agrees (borrow_state env) (borrow_state (calm env))"
    "agrees (enable_forwarding env) (enable_forwarding (calm env))"
    "agrees (recv_block env ch) (recv_block (calm env) ch)"
proof -
  show "agrees (ask_node env g) (ask_node (calm env) g)"
    unfolding ask_node_def by (rule agrees_on_node [OF assms]) simp
  show "agrees (check_cancelled env) (check_cancelled (calm env))"
    unfolding check_cancelled_def by (rule agrees_access [OF assms]) simp
  show "agrees (lock_event_tx env) (lock_event_tx (calm env))"
    unfolding lock_event_tx_def by (rule agrees_access [OF assms]) simp
  show "agrees (borrow_state env) (borrow_state (calm env))"
    unfolding borrow_state_def by (rule agrees_access [OF assms]) simp
  show "agrees (enable_forwarding env) (enable_forwarding (calm env))"
    unfolding enable_forwarding_def by (rule agrees_access [OF assms]) (simp add: case_prod_beta)
  show "agrees (recv_block env ch) (recv_block (calm env) ch)"
    unfolding recv_block_def by (rule agrees_access [OF assms]) (simp add: case_prod_beta)
qed

lemma agrees_pure:
  "agrees (returnE x) (returnE x)" "agrees (throwE e) (throwE e)" "agrees (getE f) (getE f)" "agrees (liftE q) (liftE q)"
  "agrees (modifyE (\<lambda>s. s\<lparr>sent := g1 s\<rparr>)) (modifyE (\<lambda>s. s\<lparr>sent := g1 s\<rparr>))"
  "agrees (modifyE (\<lambda>s. s\<lparr>checkpoint := g2 s\<rparr>)) (modifyE (\<lambda>s. s\<lparr>checkpoint := g2 s\<rparr>))"
  "agrees (modifyE (\<lambda>s. s\<lparr>tx_graph := g3 s\<rparr>)) (modifyE (\<lambda>s. s\<lparr>tx_graph := g3 s\<rparr>))"
  "agrees (\<lambda>s. let (e, g') = h s in (Inr e, s\<lparr>tx_graph := g'\<rparr>)) (\<lambda>s. let (e, g') = h s in (Inr e, s\<lparr>tx_graph := g'\<rparr>))"
  "agrees (\<lambda>s. let (u, s1) = finish_update wl s in (Inr u, s1)) (\<lambda>s. let (u, s1) = finish_update wl s in (Inr u, s1))"
  by (auto simp: agrees_def shut_def finish_update_def Let_def split: prod.splits)

lemma agrees_parts:
  assumes "system_env oc env news"
  shows "agrees (send_event env e) (send_event (calm env) e)"
    "agrees (publish wl env b) (publish wl (calm env) b)"
    "agrees (select_fetch nl env hashes) (select_fetch nl (calm env) hashes)"
    "agrees (process_block wl nl env blk) (process_block wl nl (calm env) blk)"
    "agrees (final_checkpoint wl nl env stop) (final_checkpoint wl nl (calm env) stop)"
    "agrees (handle_block wl env (blk, h)) (handle_block wl (calm env) (blk, h))"
    "agrees (next_block env ch) (next_block (calm env) ch)"
  unfolding send_event_def publish_def select_fetch_def process_block_def final_checkpoint_def
    handle_block_def next_block_def Let_def prod.case
  by (auto intro!: agrees_bind agrees_calls [OF assms] agrees_pure [unfolded Let_def]
      agrees_on_node [OF assms] simp: node_calls_keep_token)

lemma agrees_process_blocks:
  "system_env oc env news \<Longrightarrow> agrees (process_blocks wl nl env blocks) (process_blocks wl nl (calm env) blocks)"
  by (induction blocks) (auto intro!: agrees_bind agrees_pure agrees_parts)

lemma agrees_scan_inner:
  assumes "system_env oc env news"
  shows "agrees (scan_inner wl nl env kind) (scan_inner wl nl (calm env) kind)"
  unfolding scan_inner_def
  by (auto intro!: agrees_bind agrees_calls [OF assms] agrees_pure agrees_parts [OF assms]
      agrees_process_blocks [OF assms] agrees_on_node [OF assms] simp: node_calls_keep_token split: prod.splits)

lemma agrees_scan_and_report:
  assumes "system_env oc env news"
  shows "agrees (scan_and_report errtext wl nl env kg kind) (scan_and_report errtext wl nl (calm env) kg kind)"
  unfolding scan_and_report_then
  by (intro agrees_then agrees_bind agrees_scan_inner [OF assms] agrees_parts [OF assms] agrees_pure)

lemma agrees_select_ready:
  assumes "system_env oc env news"
  shows "agrees (select_ready env ws) (select_ready (calm env) ws)"
proof (induction ws)
  case Nil
  show ?case by (simp add: agrees_def)
next
  case (Cons w ws)
  show ?case
  proof (cases w)
    case PollCancelled
    show ?thesis unfolding PollCancelled select_ready_then
      by (intro agrees_then agrees_calls [OF assms]) (auto simp: agrees_return Cons split: sum.splits)
  next
    case StateChanged
    show ?thesis unfolding StateChanged select_ready_then
      by (intro agrees_then agrees_calls [OF assms])
        (auto simp: agrees_return Cons split: sum.splits option.splits)
  qed (simp add: agrees_def)
qed

lemma agrees_scan:
  assumes "system_env oc env news"
  shows "agrees (scan errtext wl nl env ws kind) (scan errtext wl nl (calm env) ws kind)"
  unfolding scan_then
  by (rule agrees_then [OF agrees_select_ready [OF assms]])
    (auto intro!: agrees_then agrees_return agrees_scan_and_report [OF assms] split: sum.splits option.splits)

lemma agrees_continuous_loop:
  assumes "system_env oc env news"
  shows "agrees (continuous_loop wl env ch fuel) (continuous_loop wl (calm env) ch fuel)"
proof (induction fuel)
  case 0
  show ?case by (simp add: agrees_def)
next
  case (Suc fuel)
  have eq: "continuous_loop wl env ch (Suc fuel) = (\<lambda>s. case continuous_round wl env ch s of (r, s1) \<Rightarrow>
      (case r of Inl e \<Rightarrow> \<lambda>s. (Some (Inl e), s) | Inr _ \<Rightarrow> continuous_loop wl env ch fuel) s1)" for env
    by (auto simp: fun_eq_iff split: prod.splits sum.splits)
  have round: "agrees (continuous_round wl env ch) (continuous_round wl (calm env) ch)"
    unfolding continuous_round_def
    by (auto intro!: agrees_bind agrees_parts [OF assms] agrees_pure split: option.splits)
  show ?case
    unfolding eq by (intro agrees_then round) (auto simp: agrees_return Suc split: sum.splits)
qed

lemma shut_drop_forwarding:
  assumes "system_env oc env news"
  shows "shut s \<Longrightarrow> shut (drop_forwarding env s)"
    and "\<not> shut (drop_forwarding env s) \<Longrightarrow> drop_forwarding (calm env) s = drop_forwarding env s"
  using system_env_guarantees(3) [OF assms] calm_guarantees(5) [OF assms, of "clock s" "shared s"]
  by (auto simp: drop_forwarding_def Let_def shut_def)

lemma agrees_drop:
  "system_env oc env news \<Longrightarrow> agrees (\<lambda>s. (r, drop_forwarding env s)) (\<lambda>s. (r, drop_forwarding (calm env) s))"
  using shut_drop_forwarding by (fastforce simp: agrees_def)

lemma agrees_scan_continuous:
  assumes "system_env oc env news"
  shows "agrees (scan_continuous errtext wl nl env ws fuel kind) (scan_continuous errtext wl nl (calm env) ws fuel kind)"
  unfolding scan_continuous_then
  by (rule agrees_then [OF agrees_select_ready [OF assms]])
    (auto intro!: agrees_then agrees_return agrees_drop [OF assms] agrees_calls [OF assms]
      agrees_scan_and_report [OF assms] agrees_continuous_loop [OF assms] split: sum.splits option.splits)

section \<open>Examples of such interference\<close>

text \<open>A system that looks like a given share: its node is idle and the watcher waits.\<close>

definition system_of :: "('n, 'r, 'w, 'b) shared \<Rightarrow> ('n, 'r, 'w, 'b) system" where
  "system_of sh = \<lparr>life = Node.extend (node sh) \<lparr>run_at = RunIdle, update_at = UpdateNone,
      shutdown_at = ShutdownNone, node_task = False, flushes = 0, run_results = []\<rparr>,
    forwarded = block_sink sh, slot = event_tx sh, cancelled = client_token sh, watcher_at = WatcherWaits\<rparr>"

lemma view_system_of [simp]: "view (system_of sh) = sh"
  by (simp add: view_def system_of_def Node.truncate_def Node.extend_def)

lemma system_of_ok [simp]: "system_ok (system_of sh)" "watcher_at (system_of sh) = WatcherWaits"
  by (simp_all add: system_ok_def system_of_def)

lemma one_other_step: "other_step oc S bhs T \<Longrightarrow> other_steps oc S bhs T"
  using other_steps.more [OF _ other_steps.none] by fastforce

text \<open>No interference, a validated block, and a cancellation by the holder of the token.\<close>

lemma alone_system: "system_env oc alone (\<lambda>_. [])"
  unfolding system_env_def by (auto intro!: exI [of _ "system_of _"] other_steps.none)

lemma one_block_system: "system_env oc one_block one_block_news"
  unfolding system_env_def
proof (intro allI)
  fix i :: nat and sh :: "(nat, nat, unit, BlockHash \<times> bool) shared"
  let ?S = "system_of sh"
  let ?T = "if i = 14 then ?S\<lparr>forwarded := validated (77, True) 10 (forwarded ?S)\<rparr> else ?S"
  have "other_steps oc ?S (one_block_news i) ?T"
    by (auto simp: one_block_news_def intro!: one_other_step other_step.block_validated other_steps.none)
  moreover have "view ?T = one_block i sh"
    by (simp add: one_block_def) (simp add: view_def system_of_def Node.truncate_def Node.extend_def)
  ultimately show "\<exists>S T. system_ok S \<and> view S = sh \<and> other_steps oc S (one_block_news i) T \<and> view T = one_block i sh"
    by (intro exI [of _ ?S] exI [of _ ?T]) simp
qed

end
