(* ===== verification/Composed.thy ===== *)
theory Composed
  imports System
begin

text \<open>
  What the client of \<open>src/src/client/mod.rs\<close> promises in the process it runs in: the properties
  of its scans, with the interference of the node's tasks, the watcher, the holders of its token
  and the validation of blocks of theory \<open>System\<close>, and with no assumption on them.
\<close>

section \<open>Well-formed clients\<close>

text \<open>
  The block sink is registered at most once, the sender's mutex is not poisoned, and the sender
  is gone only if both tokens are cancelled: a client whose token is not cancelled can still tell
  its subscriber why a scan ended.
\<close>

definition client_wf :: "('n, 'r, 'w, 'b, 'c, 'g, 't) Client \<Rightarrow> bool" where
  "client_wf s \<longleftrightarrow> forward_inv (block_sink (shared s)) \<and> \<not> poisoned (event_tx (shared s)) \<and>
     (\<not> guarded (event_tx (shared s)) \<longrightarrow> client_token (shared s) \<and> shut s)"

lemma client_wf_moved:
  assumes "moved (shared s) bhs sh" and "client_wf s"
  shows "client_wf (s\<lparr>shared := sh, clock := k\<rparr>)"
proof -
  have "forward_inv (block_sink sh)"
    using assms feed_inv [of "block_sink (shared s)" bhs] by (simp add: moved_def client_wf_def)
  moreover have "\<not> guarded (event_tx sh) \<Longrightarrow> client_token sh \<and> cancellation_token (node sh)"
    using assms by (cases "event_tx sh = event_tx (shared s)") (auto simp: moved_def client_wf_def shut_def)
  ultimately show ?thesis using assms by (simp add: moved_def client_wf_def shut_def)
qed

lemma client_wf_env:
  "system_env oc env news \<Longrightarrow> client_wf s \<Longrightarrow> client_wf (s\<lparr>shared := env i (shared s), clock := k\<rparr>)"
  by (rule client_wf_moved [OF system_env_moved])

lemma sink_call_inv:
  "forward_inv b \<Longrightarrow> f \<in> {snd (enable_block_forwarding b), guard_drop b} \<union> range (\<lambda>ch. snd (recv ch b)) \<Longrightarrow>
     forward_inv f"
  by (auto simp: guard_drop_inv enable_inv [OF _ prod.collapse [symmetric]]
      recv_inv [OF _ prod.collapse [symmetric]])

interpretation well_formed: forwarding_relation env
  "\<lambda>s s'. system_env oc env news \<longrightarrow> client_wf s \<longrightarrow> client_wf s'" for oc env news
proof (unfold_locales, goal_cases)
  case (1 s t u)
  then show ?case by blast
next
  case (2 s c g es)
  show ?case by (simp add: client_wf_def shut_def)
next
  case (3 n s)
  show ?case
  proof (intro impI)
    assume "system_env oc env news" and "client_wf s"
    from client_wf_env [OF this, where i = "clock s" and k = "Suc (clock s)"] 3
    show "client_wf (s\<lparr>shared := (env (clock s) (shared s))\<lparr>node := n\<rparr>, clock := Suc (clock s)\<rparr>)"
      by (simp add: client_wf_def shut_def)
  qed
next
  case (4 f b s)
  show ?case
  proof (intro impI)
    assume "system_env oc env news" and "client_wf s"
    from client_wf_env [OF this, where i = "clock s" and k = "Suc (clock s)"] 4 sink_call_inv [of b f]
    show "client_wf (s\<lparr>shared := (env (clock s) (shared s))\<lparr>block_sink := f\<rparr>, clock := Suc (clock s)\<rparr>)"
      by (simp add: client_wf_def shut_def)
  qed
qed

lemma client_new_wf: "client_new wl n w = Inr c \<Longrightarrow> client_wf c"
  by (auto simp: client_new_def client_wf_def forward_inv_init split: if_splits)

text \<open>
  C4. A new client is well-formed, and every scan and continuous scan, whatever its outcome and
  its interleaving with the other tasks, leaves a well-formed client well-formed: the sender of
  events is gone only after the node was shut down and the client's own token cancelled.
\<close>

theorem client_stays_well_formed:
  assumes "system_env oc env news" and "client_wf s"
  shows "client_wf (snd (scan errtext wl nl env ws kind s)) \<and>
    client_wf (snd (scan_continuous errtext wl nl env ws fuel kind s)) \<and>
    (client_new wl n w = Inr c \<longrightarrow> client_wf c)"
proof -
  note scan = keepsD [OF well_formed.keeps_scan prod.collapse [symmetric], rule_format, OF assms]
  note scan_continuous = keepsD [OF well_formed.keeps_scan_continuous prod.collapse [symmetric],
    rule_format, OF assms]
  show ?thesis using scan scan_continuous client_new_wf by blast
qed

section \<open>The events of a scan\<close>


section \<open>The events of a continuous scan\<close>


text \<open>
  C3. The whole life of a continuous scan, as its subscriber sees it until the node is shut down:
  nothing if it did not get past its wait; otherwise the updates of the scan, and either the
  error that ended it or \<open>Finished\<close>, and then one update for each validated block above the
  checkpoint, of a prefix of the blocks validated since forwarding was enabled, in order.
\<close>

theorem continuous_scan_trail:
  fixes errtext :: "('x, 'n) ClientError \<Rightarrow> string" and nl :: "('x, 'w, 'b) node_lib"
    and s :: "('n, 'r, 'w, 'b, 'c, 'g, 't) Client"
  assumes "system_env oc env news" and "forward_inv (block_sink (shared s))" and "channel_open s"
    and "scan_continuous errtext wl nl env ws fuel kind s = (r, s')" and "\<not> shut s'"
  shows "(sent s' = sent s \<and> position s' = position s \<and>
      r \<in> {None, Some (Inl ScanAborted), Some (Inl ClientError.UnresponsiveNode), Some (Inl PoisonedLock)}) \<or>
    (\<exists>us e. r = Some (Inl e) \<and> accounted wl nl us s s' \<and>
      sent s' = sent s @ map WalletUpdate us @ [ScanError (errtext e)]) \<or>
    (\<exists>us t bhs i j. r \<in> {None, Some (Inl ScanAborted)} \<and> accounted wl nl us s t \<and>
      prefix bhs (news_between news i j) \<and> position s' = fst (follow wl bhs (position t)) \<and>
      sent s' = sent s @ map WalletUpdate us @ [ScanFinished True] @
        map WalletUpdate (snd (follow wl bhs (position t))))"
  by (rule continuous_trail [OF calm_guarantees(2,1) [OF assms(1)] assms(2,3)
        agreesD(1) [OF agrees_scan_continuous [OF assms(1)] assms(4,5)]])

section \<open>After a shutdown\<close>

lemma watcher_effect:
  assumes "cancellation_token (node sh)" and "\<not> poisoned (event_tx sh)"
  shows "client_token (watcher_take (watcher_cancel sh)) \<and>
    \<not> guarded (event_tx (watcher_take (watcher_cancel sh)))"
  using assms by (simp add: watcher_take_def watcher_cancel_def take_sender_def)

text \<open>A client whose token is cancelled and whose sender is gone stays so.\<close>

definition silent :: "('n, 'r, 'w, 'b, 'c, 'g, 't) Client \<Rightarrow> bool" where
  "silent s \<longleftrightarrow> client_token (shared s) \<and> \<not> guarded (event_tx (shared s))"

lemma silent_env:
  assumes "system_env oc env news" and "silent s"
  shows "client_token (env i (shared s)) \<and> \<not> guarded (event_tx (env i (shared s)))"
  using system_env_guarantees(1,5) [OF assms(1)] assms(2) by (simp add: silent_def cancel_sticks_def)

interpretation silence: client_relation env
  "\<lambda>s s'. system_env oc env news \<longrightarrow> silent s \<longrightarrow> silent s'" for oc env news
proof (unfold_locales, goal_cases)
  case (1 s t u)
  then show ?case by blast
next
  case (2 s c g es)
  show ?case by (simp add: silent_def)
next
  case (3 n s)
  show ?case
    using silent_env [of oc env news s] by (simp add: silent_def)
qed

lemma silent_report:
  fixes errtext :: "('x, 'n) ClientError \<Rightarrow> string"
  assumes "system_env oc env news" and "silent s" and "scan_and_report errtext wl nl env kg kind s = (r, s')"
  shows "own s' = own s \<and> (\<exists>e. r = Inl e)"
proof -
  obtain q :: "('x, 'n) ClientError + unit" and s1 where si: "scan_inner wl nl env kind s = (q, s1)"
    by force
  have "client_token (shared s)" using assms(2) by (simp add: silent_def)
  from cancelled_find_blocks [OF system_env_guarantees(1) [OF assms(1)] this] obtain e s3 where
    fb: "find_blocks wl nl env kind s = (Inl e :: ('x, 'n) ClientError + u32 \<times> _ list, s3)" by blast
  with si have q: "q = Inl e" "s1 = s3" by (simp_all add: scan_inner_split bindE_def)
  have o: "own s1 = own s" unfolding q by (rule shared_onlyD(1) [OF find_blocks_shared_only fb])
  from keepsD [OF silence.keeps_scan_inner si] assms(1,2) have "silent s1" by blast
  then have "\<not> guarded (event_tx (env (clock s1) (shared s1)))"
    using system_env_guarantees(5) [OF assms(1)] by (simp add: silent_def)
  with assms(3) si o q(1) show ?thesis
    by (auto simp: scan_and_report_def bindE_def send_event_def lock_event_tx_eq split: if_splits)
qed

text \<open>
  C12. Once the shutdown task has cancelled the node's token, the watcher the client spawned
  cancels the client and drops its sender: a call of \<open>scan\<close> or \<open>scan_continuous\<close> made after that,
  in any interleaving with the other tasks, does not return \<open>Ok\<close>, sends no event, not even the
  error, and leaves the client's checkpoint and graph as they were.
\<close>

theorem shutdown_silences_client:
  fixes errtext :: "('x, 'n) ClientError \<Rightarrow> string"
  assumes "system_env oc env news" and "cancellation_token (node (shared s))"
    and "\<not> poisoned (event_tx (shared s))" and "s1 = s\<lparr>shared := watcher_take (watcher_cancel (shared s))\<rparr>"
    and "(r, s') \<in> {scan errtext wl nl env ws kind s1, scan_continuous errtext wl nl env ws fuel kind s1}"
  shows "own s' = own s \<and> (r = None \<or> (\<exists>e. r = Some (Inl e)))"
proof -
  have sil: "silent s1" and o1: "own s1 = own s"
    using watcher_effect [OF assms(2,3)] assms(4) by (simp_all add: silent_def)
  have wait: "silent s2 \<and> own s2 = own s" if "wait_until_ready env ws s1 = (q, s2)"
    for q :: "(('x, 'n) ClientError + unit) option" and s2
    using keepsD [OF silence.keeps_wait that [unfolded wait_is_select], of oc news] assms(1) sil o1
      select_ready_justified [OF that [unfolded wait_is_select]] by simp
  from assms(5) consider "scan errtext wl nl env ws kind s1 = (r, s')"
    | "scan_continuous errtext wl nl env ws fuel kind s1 = (r, s')" by auto
  then show ?thesis
  proof cases
    case 1
    obtain q :: "(('x, 'n) ClientError + unit) option" and s2 where
      w: "wait_until_ready env ws s1 = (q, s2)" by force
    note w2 = wait [OF w]
    obtain p s3 where sr: "scan_and_report errtext wl nl env False kind s2 = (p, s3)" by force
    from 1 w w2 sr silent_report [OF assms(1) conjunct1 [OF w2] sr] show ?thesis
      by (auto simp: scan_def split: option.splits sum.splits)
  next
    case 2
    then show ?thesis
    proof (cases rule: scan_continuous_cases)
      case Waiting
      with wait [OF Waiting(1)] show ?thesis by (cases r; cases "the r") auto
    next
      case (Locked s2 e)
      with wait [OF Locked(1)] enable_forwarding_quiet [OF Locked(2)] show ?thesis by simp
    next
      case (Failed s2 ch s3 e s4)
      note w2 = wait [OF Failed(1)]
      have "silent s3 \<and> own s3 = own s2"
        using Failed(2) silent_env [OF assms(1) conjunct1 [OF w2]]
        by (auto simp: enable_forwarding_def access_def Let_def silent_def split: prod.splits)
      with silent_report [OF assms(1) _ Failed(3)] w2 Failed(4,5) show ?thesis by simp
    next
      case (Looping s2 ch s3 s4 s5)
      note w2 = wait [OF Looping(1)]
      have "silent s3"
        using Looping(2) silent_env [OF assms(1) conjunct1 [OF w2]]
        by (auto simp: enable_forwarding_def access_def Let_def silent_def split: prod.splits)
      from silent_report [OF assms(1) this Looping(3)] show ?thesis by simp
    qed
  qed
qed

section \<open>Stopping a scan\<close>

lemma select_ready_append:
  "select_ready env (ws @ vs) s =
     (case select_ready env ws s of (None, s1) \<Rightarrow> select_ready env vs s1 | (Some r, s1) \<Rightarrow> (Some r, s1))"
proof (induction ws arbitrary: s)
  case (Cons w ws)
  then show ?case by (cases w) (auto split: prod.splits sum.splits option.splits)
qed simp

lemma continuous_loop_add:
  "continuous_loop wl env ch (m + n) s =
     (case continuous_loop wl env ch m s of
        (None, s1) \<Rightarrow> continuous_loop wl env ch n s1 | (Some r, s1) \<Rightarrow> (Some r, s1))"
  by (induction m arbitrary: s) (auto split: prod.splits sum.splits)


section \<open>The properties on concrete runs\<close>

interpretation steady: forwarding_relation env
  "\<lambda>s s'. (\<forall>i sh. cancellation_token (node (env i sh)) = cancellation_token (node sh)) \<longrightarrow> shut s' = shut s" for env
  by unfold_locales (auto simp: shut_def)

lemma sample_not_shut: "\<not> shut (sample_client w st\<lparr>clock := k\<rparr>)" "\<not> shut (sample_client w st)"
  by (simp_all add: sample_client_def shut_def)

lemma sample_wf: "client_wf (sample_client w st)"
  by (simp add: sample_client_def client_wf_def forward_inv_init)

theorem client_stays_well_formed_witness:
  "client_wf (snd (scan (\<lambda>_ :: (nat, nat) ClientError. []) sample_lib sample_node_lib one_block [] Sync sample_start))"
  using client_stays_well_formed [OF one_block_system sample_wf, of "\<lambda>_. []" sample_lib sample_node_lib "[]" Sync]
  by blast



text \<open>
  A continuous scan that is suspended in its loop: it sent the update for the relevant block at
  height 7, the one for the filter tip 9, \<open>Finished\<close>, and the one for the block validated since.
\<close>

abbreviation suspended ::
  "((nat, nat) ClientError + unit) option \<times>
   (nat, nat, unit, BlockHash \<times> bool, u32, u32 \<times> BlockHash list, BlockHash list) Client" where
  "suspended \<equiv> scan_continuous (\<lambda>_ :: (nat, nat) ClientError. []) sample_lib sample_node_lib
     one_block [] (Suc 0) Sync sample_start"

lemma suspended_run:
  "fst suspended = None \<and>
   map (\<lambda>e. case e of WalletUpdate u \<Rightarrow> chain u | _ \<Rightarrow> None) (sent (snd suspended)) =
     [Some 7, Some 9, None, Some 10] \<and> sent (snd suspended) ! 2 = ScanFinished True"
  by (simp add: scan_continuous_def wait_until_ready_def borrow_state_eq one_block_def
      enable_forwarding_def access_def enable_block_forwarding_def no_forwarding_def
      scan_and_report_def scan_inner_eqs sample_lib_def sample_node_lib_def sample_client_def scan_end_def
      continuous_round_def next_block_def recv_block_def validated_def on_block_def recv_def handle_block_def)

lemma suspended_eq: "suspended = (None, snd suspended)"
  using suspended_run by (metis prod.collapse)

lemma suspended_not_shut: "\<not> shut (snd suspended)"
  using keepsD [OF steady.keeps_scan_continuous suspended_eq] sample_not_shut(2)
  by (simp add: one_block_def)

theorem continuous_scan_trail_witness:
  "\<exists>us vs. sent (snd suspended) = map WalletUpdate us @ [ScanFinished True] @ map WalletUpdate vs"
proof -
  have "sent (snd suspended) \<noteq> sent sample_start" using suspended_run by auto
  with continuous_scan_trail [OF one_block_system sample_start_forward sample_start_simps(1) suspended_eq
      suspended_not_shut] show ?thesis by auto
qed

text \<open>A client of a node whose shutdown task has run.\<close>

definition shut_client ::
  "(nat, nat, unit, BlockHash \<times> bool, u32, u32 \<times> BlockHash list, BlockHash list) Client" where
  "shut_client = sample_start\<lparr>shared := (shared sample_start)\<lparr>node :=
     (sample_node () Operational)\<lparr>cancellation_token := True\<rparr>\<rparr>\<rparr>"

theorem shutdown_silences_client_witness:
  "sent (snd (scan (\<lambda>_ :: (nat, nat) ClientError. ''aborted'') sample_lib sample_node_lib alone [] Sync
     (shut_client\<lparr>shared := watcher_take (watcher_cancel (shared shut_client))\<rparr>))) = []"
proof -
  have 1: "cancellation_token (node (shared shut_client))" "\<not> poisoned (event_tx (shared shut_client))"
    and s: "sent shut_client = []"
    by (simp_all add: shut_client_def sample_client_def)
  let ?s1 = "shut_client\<lparr>shared := watcher_take (watcher_cancel (shared shut_client))\<rparr>"
  let ?call = "scan (\<lambda>_ :: (nat, nat) ClientError. ''aborted'') sample_lib sample_node_lib alone [] Sync"
  let ?continuous = "scan_continuous (\<lambda>_ :: (nat, nat) ClientError. ''aborted'') sample_lib sample_node_lib alone [] 0 Sync"
  have "(fst (?call ?s1), snd (?call ?s1)) \<in> {?call ?s1, ?continuous ?s1}" by simp
  from shutdown_silences_client [OF alone_system 1 refl this] s show ?thesis by (simp add: own_def)
qed


end
