(* ===== verification/Subscriber.thy ===== *)
theory Subscriber
  imports Composed Logger
begin

text \<open>
  The task of both example programs (\<open>src/examples/client_signet.rs\<close>,
  \<open>src/examples/client_regtest.rs\<close>) that applies a scan's events to the wallet. The wallet library
  is a parameter: what applying an update does to a wallet, and the texts it displays.
\<close>

section \<open>The subscriber\<close>

datatype 'i WalletEvent = ChainTipChanged u32 BlockHash | TxConfirmed 'i u32 | OtherWalletEvent

record ('v, 't, 'c, 'e, 'i) wallet_api =
  apply_update_events :: "('t, 'c) Update \<Rightarrow> 'v \<Rightarrow> ('e + 'i WalletEvent list) \<times> 'v"
  total_btc :: "'v \<Rightarrow> string"
  utxo_count :: "'v \<Rightarrow> nat"
  hash_text :: "BlockHash \<Rightarrow> string"
  txid_text :: "'i \<Rightarrow> string"
  apply_error_text :: "'e \<Rightarrow> string"

fun wallet_event_lines :: "('v, 't, 'c, 'e, 'i) wallet_api \<Rightarrow> 'v \<Rightarrow> 'i WalletEvent \<Rightarrow> log" where
  "wallet_event_lines api w (ChainTipChanged height hash) =
     [(INFO, ''> WALLET: NEW CHECKPOINT: height='' @ display_word height @ '' hash='' @ hash_text api hash)]"
| "wallet_event_lines api w (TxConfirmed txid height) =
     [(INFO, ''> WALLET: TX CONFIRMED: txid='' @ txid_text api txid @ '' height='' @ display_word height @
        '' | BALANCE: '' @ total_btc api w @ '' BTC'')]"
| "wallet_event_lines api w OtherWalletEvent = []"

text \<open>One event: the lines logged, whether the loop is left, and the wallet after it.\<close>

fun on_scan_event ::
  "('v, 't, 'c, 'e, 'i) wallet_api \<Rightarrow> ('t, 'c) ScanEvent \<Rightarrow> 'v \<Rightarrow> log \<times> bool \<times> 'v" where
  "on_scan_event api (WalletUpdate update) w =
     (case apply_update_events api update w of
        (Inr events, w1) \<Rightarrow> (concat (map (wallet_event_lines api w1) events), False, w1)
      | (Inl e, w1) \<Rightarrow> ([(WARN, ''> FAILED TO APPLY UPDATE: '' @ apply_error_text api e)], False, w1))"
| "on_scan_event api (ScanFinished keep_going) w =
     ([(INFO, ''> SCANNED UP TO TIP, CONTINUING...'')], False, w)"
| "on_scan_event api (ScanError e) w = ([(WARN, ''> SCAN ERROR: '' @ e)], True, w)"

text \<open>
  The loop over the events that have been sent. When they are used up, \<open>recv\<close> ends the loop if
  the sender is gone (\<open>closed\<close>) and waits otherwise. The result says whether the task has ended.
\<close>

fun scan_task ::
  "('v, 't, 'c, 'e, 'i) wallet_api \<Rightarrow> bool \<Rightarrow> ('t, 'c) ScanEvent list \<Rightarrow> 'v \<Rightarrow> log \<times> bool \<times> 'v" where
  "scan_task api closed [] w = ([], closed, w)"
| "scan_task api closed (event # events) w =
     (case on_scan_event api event w of
        (l, True, w1) \<Rightarrow> (l, True, w1)
      | (l, False, w1) \<Rightarrow>
          (case scan_task api closed events w1 of (l', ended, w2) \<Rightarrow> (l @ l', ended, w2)))"

fun updates_of :: "('t, 'c) ScanEvent list \<Rightarrow> ('t, 'c) Update list" where
  "updates_of [] = []"
| "updates_of (WalletUpdate u # es) = u # updates_of es"
| "updates_of (_ # es) = updates_of es"

definition apply_all :: "('v, 't, 'c, 'e, 'i) wallet_api \<Rightarrow> ('t, 'c) Update list \<Rightarrow> 'v \<Rightarrow> 'v" where
  "apply_all api us w = foldl (\<lambda>w u. snd (apply_update_events api u w)) w us"

lemma updates_of_simps [simp]:
  "updates_of (xs @ ys) = updates_of xs @ updates_of ys" "updates_of (map WalletUpdate us) = us"
proof -
  show "updates_of (xs @ ys) = updates_of xs @ updates_of ys"
    by (induction xs rule: updates_of.induct) simp_all
  show "updates_of (map WalletUpdate us) = us" by (induction us) simp_all
qed

text \<open>The loop over updates and \<open>Finished\<close> goes through all of them, and applies each update.\<close>

fun goes_on :: "('t, 'c) ScanEvent \<Rightarrow> bool" where
  "goes_on (ScanError _) = False"
| "goes_on _ = True"

lemma goes_on_updates [simp]: "list_all goes_on (map WalletUpdate us)"
  by (induction us) simp_all

lemma scan_task_event:
  "snd (scan_task api closed (e # es) w) =
    (case on_scan_event api e w of
       (l, True, w1) \<Rightarrow> (True, w1) | (l, False, w1) \<Rightarrow> snd (scan_task api closed es w1))"
  by (simp split: prod.split bool.split)

lemma scan_task_through:
  assumes "list_all goes_on es"
  shows "snd (scan_task api closed (es @ fs) w) =
    snd (scan_task api closed fs (apply_all api (updates_of es) w))"
  using assms
proof (induction es arbitrary: w rule: updates_of.induct)
  case (2 u es)
  then show ?case
    by (cases "apply_update_events api u w" rule: prod.exhaust; cases "fst (apply_update_events api u w)")
      (simp_all add: apply_all_def scan_task_event del: scan_task.simps)
qed (auto simp: apply_all_def scan_task_event simp del: scan_task.simps)

lemma follow_in_sync:
  assumes "follow wl bhs cg = (cg', vs)"
  shows "if vs = [] then fst cg' = fst cg else chain (last vs) = Some (fst cg')"
  using assms
proof (induction bhs arbitrary: cg cg' vs)
  case Nil
  then show ?case by (cases cg) simp
next
  case (Cons bh bhs)
  obtain b h c g where [simp]: "bh = (b, h)" "cg = (c, g)" by (metis prod.exhaust)
  show ?case
  proof (cases "h \<le> cp_height wl c")
    case True
    with Cons.prems Cons.IH [of cg cg' vs] show ?thesis by simp
  next
    case False
    let ?g1 = "snd (apply_block_relevant wl b h g)" and ?c1 = "cp_insert wl c (h, block_hash wl b)"
    obtain us where f: "follow wl bhs (?c1, graph_new wl (graph_index wl ?g1)) = (cg', us)"
      and vs: "vs = update_at wl ?c1 ?g1 # us"
      using Cons.prems False by (auto simp: Let_def split: prod.splits)
    with Cons.IH [OF f] show ?thesis by (auto simp: update_at_def)
  qed
qed

text \<open>What a continuous scan has sent: an error only as the last event, and updates up to its checkpoint.\<close>

lemma continuous_events:
  fixes errtext :: "('x, 'n) ClientError \<Rightarrow> string" and nl :: "('x, 'w, 'b) node_lib"
    and s :: "('n, 'r, 'w, 'b, 'c, 'g, 't) Client"
  assumes "system_env oc env news" and "forward_inv (block_sink (shared s))" and "channel_open s"
    and "sent s = []" and "scan_continuous errtext wl nl env ws fuel kind s = (r, s')" and "\<not> shut s'"
  shows "in_sync (updates_of (sent s')) s s' \<and> (list_all goes_on (sent s') \<or>
    (\<exists>e es. r = Some (Inl e) \<and> sent s' = es @ [ScanError (errtext e)] \<and> list_all goes_on es))"
proof -
  from continuous_trail [OF calm_guarantees(2,1) [OF assms(1)] assms(2,3)
      agreesD(1) [OF agrees_scan_continuous [OF assms(1)] assms(5,6)]] assms(4)
  consider (Nothing) "sent s' = []" "position s' = position s"
    | (Failed) us e where "r = Some (Inl e)" "accounted wl nl us s s'"
        "sent s' = map WalletUpdate us @ [ScanError (errtext e)]"
    | (Looping) us t bhs where "accounted wl nl us s t" "position s' = fst (follow wl bhs (position t))"
        "sent s' = map WalletUpdate us @ [ScanFinished True] @ map WalletUpdate (snd (follow wl bhs (position t)))"
    by auto
  then show ?thesis
  proof cases
    case Nothing
    then show ?thesis by (simp add: in_sync_def position_def)
  next
    case Failed
    with accounted_in_sync [OF Failed(2)] show ?thesis by simp
  next
    case Looping
    obtain cg vs where f: "follow wl bhs (position t) = (cg, vs)" by (metis prod.exhaust)
    have "list_all goes_on (sent s')" unfolding Looping(3) by simp
    with accounted_in_sync [OF Looping(1)] follow_in_sync [OF f] Looping(2,3) f show ?thesis
      by (auto simp: in_sync_def position_def split: if_splits)
  qed
qed


text \<open>A wallet that is its checkpoint, and displays numbers.\<close>

definition sample_api :: "(u32, 't, u32, nat, nat) wallet_api" where
  "sample_api = \<lparr>apply_update_events = (\<lambda>u w. case chain u of
       None \<Rightarrow> (Inl 0, w) | Some c \<Rightarrow> (Inr [ChainTipChanged c 0], c)),
     total_btc = (\<lambda>_. ''0''), utxo_count = (\<lambda>_. 0), hash_text = (\<lambda>_. ''aa''), txid_text = dec, apply_error_text = dec\<rparr>"


end
