(* ===== verification/Builder.thy ===== *)
theory Builder
  imports Node Logger
begin

text \<open>
  The builder of \<open>src/src/node/builder.rs\<close>: the default configuration, its conversion to the
  configuration of the inner node, and the steps of \<open>Builder::build\<close> with their errors. The
  stores, the chain state and the inner node are made by functions of the libraries.
\<close>

definition BYTES_PER_MB :: usize where
  "BYTES_PER_MB = 1000000"

text \<open>The networks are the library's; \<open>signet\<close> is the default one and \<open>net_text\<close> gives its name.\<close>

definition node_config_default ::
  "'n \<Rightarrow> ('n \<Rightarrow> string) \<Rightarrow> string \<Rightarrow> 'r list \<Rightarrow> ('n, 'r) NodeConfig" where
  "node_config_default signet net_text user_agent_env supported_nets =
     \<lparr>network = signet, datadir = path_join ''./data/{}'' (net_text signet), enable_powfps = True,
      assume_valid = None, assume_utreexo = True, perform_backfill = False,
      user_agent = user_agent_env, fixed_peers = None, max_banscore = 100, socks5_proxy = None,
      disable_dns_seeds = False, allow_p2pv1_fallback = True, mempool_size = 100,
      address_man_size = None, reachable_nets = supported_nets\<rparr>"

text \<open>The library's configuration of the inner node; \<open>'u\<close> is its type of utreexo checkpoints.\<close>

record ('n, 'u) UtreexoNodeConfig =
  un_network :: 'n
  pow_fraud_proofs :: bool
  compact_filters :: bool
  un_fixed_peers :: "string list"
  un_max_banscore :: u32
  un_datadir :: string
  proxy :: "SocketAddr option"
  un_assume_utreexo :: "'u option"
  backfill :: bool
  filter_start_height :: "int option"
  un_user_agent :: string
  allow_v1_fallback :: bool
  un_disable_dns_seeds :: bool

definition utreexo_config :: "('n \<Rightarrow> 'u) \<Rightarrow> ('n, 'r) NodeConfig \<Rightarrow> ('n, 'u) UtreexoNodeConfig" where
  "utreexo_config get_assume_utreexo c =
     \<lparr>un_network = network c, pow_fraud_proofs = enable_powfps c, compact_filters = True,
      un_fixed_peers = map display_SocketAddr (concat (case fixed_peers c of None \<Rightarrow> [] | Some v \<Rightarrow> [v])),
      un_max_banscore = max_banscore c, un_datadir = datadir c, proxy = socks5_proxy c,
      un_assume_utreexo = (if assume_utreexo c then Some (get_assume_utreexo (network c)) else None),
      backfill = perform_backfill c, filter_start_height = Some 0, un_user_agent = user_agent c,
      allow_v1_fallback = allow_p2pv1_fallback c, un_disable_dns_seeds = disable_dns_seeds c\<rparr>"

section \<open>The builder\<close>

record ('n, 'r) builder =
  builder_config :: "('n, 'r) NodeConfig"
  builder_logger :: "Logger option"

definition builder_new :: "('n, 'r) NodeConfig \<Rightarrow> ('n, 'r) builder" where
  "builder_new default_config = \<lparr>builder_config = default_config, builder_logger = None\<rparr>"

definition with_config :: "('n, 'r) NodeConfig \<Rightarrow> ('n, 'r) builder \<Rightarrow> ('n, 'r) builder" where
  "with_config c b = b\<lparr>builder_config := c\<rparr>"

definition with_logger :: "Logger \<Rightarrow> ('n, 'r) builder \<Rightarrow> ('n, 'r) builder" where
  "with_logger lg b = b\<lparr>builder_logger := Some lg\<rparr>"

text \<open>
  What \<open>build\<close> calls of the libraries: opening the chain store (\<open>'s\<close>) and the chain state
  (\<open>'c\<close>) with the mode of assumed validity (\<open>'v\<close>), the filters (\<open>'k\<close>), the mempool (\<open>'m\<close>), the
  address manager (\<open>'a\<close>) and the inner node (\<open>'i\<close>). The backend of the node is the chain state,
  the filters and the handle, for which the inner node stands.
\<close>

record ('f, 'x, 'n, 'r, 'u, 's, 'v, 'c, 'k, 'm, 'a, 'i) builder_lib =
  assume_utreexo_of :: "'n \<Rightarrow> 'u"
  chain_store_new :: "string \<Rightarrow> 'f \<Rightarrow> ('x + 's) \<times> 'f"
  hardcoded :: 'v
  chain_state_open :: "'s \<Rightarrow> 'n \<Rightarrow> 'v \<Rightarrow> 'f \<Rightarrow> ('x + 'c) \<times> 'f"
  filters_new :: "string \<Rightarrow> 'k"
  mempool_new :: "usize \<Rightarrow> 'm"
  address_man_new :: "usize option \<Rightarrow> 'r list \<Rightarrow> 'a"
  utreexo_node_new :: "('n, 'u) UtreexoNodeConfig \<Rightarrow> 'c \<Rightarrow> 'm \<Rightarrow> 'k option \<Rightarrow> bool \<Rightarrow> 'a \<Rightarrow> 'x + 'i"

text \<open>
  An error is \<open>Some\<close> of a builder error, and \<open>None\<close> is the panic of the multiplication in a
  build with overflow checks (\<open>oc\<close>).
\<close>

definition mapE :: "('e \<Rightarrow> 'd) \<Rightarrow> ('s, 'e, 'a) comp \<Rightarrow> ('s, 'd, 'a) comp" where
  "mapE f m = (\<lambda>s. let (r, s') = m s in (map_err f r, s'))"

definition checked :: "'a option \<Rightarrow> ('s, 'e option, 'a) comp" where
  "checked v = liftE (ok_or None v)"

definition build ::
  "bool \<Rightarrow> ('f, 'x, 'n, 'r, 'u, 's, 'v, 'c, 'k, 'm, 'a, 'i) builder_lib \<Rightarrow> ('f, 'x) os \<Rightarrow>
   string option \<Rightarrow> bool \<Rightarrow> ('n, 'r) builder \<Rightarrow>
   ('f process, 'x BuilderError option, ('n, 'r, 'c \<times> 'k \<times> 'i) Node) comp" where
  "build oc lib os rust_log tty b =
     (let c = builder_config b in
      bindE (on_files (\<lambda>e. Some (CreateDirectory e)) (create_dir_all os (datadir c))) (\<lambda>_.
      bindE (case builder_logger b of
               Some lg \<Rightarrow> mapE Some (logger_init os rust_log tty lg)
             | None \<Rightarrow> returnE False) (\<lambda>guard.
      bindE (on_files (\<lambda>e. Some (ChainStoreInit e))
               (chain_store_new lib (path_join (datadir c) ''chain''))) (\<lambda>chain_store.
      bindE (on_files (\<lambda>e. Some (ChainState e))
               (chain_state_open lib chain_store (network c) (hardcoded lib))) (\<lambda>chain_state.
      let block_filters = filters_new lib (path_join (datadir c) ''filters''); killed = False in
      bindE (checked (mul_arith oc (mempool_size c) BYTES_PER_MB)) (\<lambda>mempool_size_bytes.
      bindE (liftE (map_err (\<lambda>e. Some (BuildInner e))
               (utreexo_node_new lib (utreexo_config (assume_utreexo_of lib) c) chain_state
                 (mempool_new lib mempool_size_bytes) (Some block_filters) killed
                 (address_man_new lib (address_man_size c) (reachable_nets c))))) (\<lambda>inner_node.
      returnE \<lparr>inner = True, config = c, state = Inactive, started_at = None, actions = {},
        cancellation_token = False, kill_signal = killed, shutdown_task = False, log_guard = guard,
        backend = (chain_state, block_filters, inner_node)\<rparr>)))))))"

section \<open>What a build gives\<close>

lemma bindE_Inr:
  "bindE m f s = (Inr y, s') \<longleftrightarrow> (\<exists>x s1. m s = (Inr x, s1) \<and> f x s1 = (Inr y, s'))"
  by (auto simp: bindE_def split: prod.splits sum.splits)

lemma mapE_Inr: "mapE g m s = (Inr y, s') \<longleftrightarrow> m s = (Inr y, s')"
  by (auto simp: mapE_def split: prod.splits)

text \<open>The step that sets the logger up, if one is configured.\<close>

definition build_logger ::
  "('f, 'x) os \<Rightarrow> string option \<Rightarrow> bool \<Rightarrow> ('n, 'r) builder \<Rightarrow>
   ('f process, 'x BuilderError option, bool) comp" where
  "build_logger os rust_log tty b =
     (case builder_logger b of
        Some lg \<Rightarrow> mapE Some (logger_init os rust_log tty lg)
      | None \<Rightarrow> returnE False)"

lemma build_logger_cases:
  assumes "build_logger os rust_log tty b w = (r, w')"
  shows "case r of
      Inr guard \<Rightarrow> (if builder_logger b = None then w' = w \<and> \<not> guard
        else global_subscriber w = None \<and> global_subscriber w' \<noteq> None \<and>
          guard = (log_file (the (builder_logger b)) \<noteq> None))
    | Inl _ \<Rightarrow> global_subscriber w' = global_subscriber w"
proof (cases "builder_logger b")
  case None
  with assms show ?thesis by (auto simp: build_logger_def)
next
  case (Some lg)
  with assms obtain q where q: "logger_init os rust_log tty lg w = (q, w')" "r = map_err Some q"
    by (auto simp: build_logger_def mapE_def Let_def split: prod.splits)
  from logger_init_cases [OF q(1)] q(2) Some show ?thesis by (auto split: sum.splits)
qed

text \<open>
  A build that succeeds gives a node with the builder's configuration that has not been
  run: inactive, no actions, nothing cancelled, the inner node in place, and a log guard exactly
  if a logger with a file was configured.
\<close>

theorem build_gives_fresh_node:
  assumes "build oc lib os rust_log tty b w = (Inr n, w')"
  shows "config n = builder_config b \<and> inner n \<and> state n = Inactive \<and> started_at n = None \<and>
    actions n = {} \<and> \<not> cancellation_token n \<and> \<not> kill_signal n \<and> \<not> shutdown_task n \<and>
    (log_guard n \<longleftrightarrow> (\<exists>lg. builder_logger b = Some lg \<and> log_file lg \<noteq> None))"
proof -
  from assms obtain w1 guard w2 where bl: "build_logger os rust_log tty b w1 = (Inr guard, w2)"
    and n: "config n = builder_config b" "inner n" "state n = Inactive" "started_at n = None"
      "actions n = {}" "\<not> cancellation_token n" "\<not> kill_signal n" "\<not> shutdown_task n"
      "log_guard n = guard"
    by (auto simp: build_def build_logger_def Let_def bindE_Inr)
  from build_logger_cases [OF bl] n show ?thesis by (auto split: if_splits)
qed

lemma bindE_Inl:
  "bindE m f s = (Inl e, s') \<longleftrightarrow>
     m s = (Inl e, s') \<or> (\<exists>x s1. m s = (Inr x, s1) \<and> f x s1 = (Inl e, s'))"
  by (auto simp: bindE_def split: prod.splits sum.splits)

lemma on_files_keeps:
  "on_files err f w = (r, w') \<Longrightarrow> global_subscriber w' = global_subscriber w"
  by (auto simp: on_files_def split: prod.splits)

lemma on_files_error: "on_files err f w = (Inl e, w') \<Longrightarrow> \<exists>x. e = err x"
  by (auto simp: on_files_def Let_def split: prod.splits)

lemma build_with_subscriber:
  assumes "builder_logger b \<noteq> None" and "global_subscriber w \<noteq> None"
  shows "\<exists>e. fst (build oc lib os rust_log tty b w) = Inl (Some e) \<and>
    (e = LoggerAlreadySetup \<or> (\<exists>x. e = LoggerSetup x) \<or> (\<exists>x. e = CreateDirectory x))"
proof -
  obtain r w1 where cd: "on_files (\<lambda>e. Some (CreateDirectory e)) (create_dir_all os (datadir (builder_config b))) w
      = (r, w1)" by force
  show ?thesis
  proof (cases r)
    case (Inl e)
    with cd on_files_error [OF cd [unfolded Inl]] show ?thesis by (auto simp: build_def Let_def bindE_def)
  next
    case (Inr u)
    from assms(1) obtain lg where lg: "builder_logger b = Some lg" by auto
    obtain q w2 where li: "logger_init os rust_log tty lg w1 = (q, w2)" by force
    from logger_init_cases [OF li] on_files_keeps [OF cd] assms(2) obtain e where
      "q = Inl e" "e = LoggerAlreadySetup \<or> (\<exists>x. e = LoggerSetup x)"
      by (auto split: sum.splits)
    with cd Inr lg li show ?thesis by (auto simp: build_def Let_def bindE_def mapE_def)
  qed
qed

lemma build_logger_error:
  "build_logger os rust_log tty b w = (Inl e, w') \<Longrightarrow>
     e = Some LoggerAlreadySetup \<or> (\<exists>x. e = Some (LoggerSetup x))"
  by (auto simp: build_logger_def mapE_def Let_def split: option.splits prod.splits
      dest!: logger_init_cases)

lemma build_late_failure:
  assumes "build oc lib os rust_log tty b w = (Inl e, w')" and "builder_logger b \<noteq> None"
    and "e = None \<or> (\<exists>x. e \<in> {Some (ChainStoreInit x), Some (ChainState x), Some (BuildInner x)})"
  shows "global_subscriber w' \<noteq> None"
proof -
  have not_early: "\<not> (\<exists>w1 r. build_logger os rust_log tty b w1 = (Inl e, r))"
    using assms(3) by (auto dest!: build_logger_error)
  have "\<exists>w1 guard w2. build_logger os rust_log tty b w1 = (Inr guard, w2) \<and>
      global_subscriber w' = global_subscriber w2"
    using assms(1,3) not_early
    unfolding build_def Let_def build_logger_def [symmetric]
    by (auto simp: bindE_Inl checked_def dest: on_files_error) (metis on_files_keeps)+
  then obtain w1 guard w2 where bl: "build_logger os rust_log tty b w1 = (Inr guard, w2)"
    and "global_subscriber w' = global_subscriber w2" by blast
  with build_logger_cases [OF bl] assms(2) show ?thesis by (simp split: if_splits)
qed

text \<open>
  C38. A build with a logger that fails after the logger was set up cannot be repeated in the
  same process: every later build with a logger, of any configuration and even when the cause
  of the failure is gone, fails too, since the subscriber of the first one stays set.
\<close>

theorem failed_build_blocks_logger:
  assumes "build oc lib os rust_log tty b w = (Inl e, w')" and "builder_logger b \<noteq> None"
    and "e = None \<or> (\<exists>x. e \<in> {Some (ChainStoreInit x), Some (ChainState x), Some (BuildInner x)})"
    and "builder_logger b' \<noteq> None" and "global_subscriber w'' = global_subscriber w'"
  shows "\<exists>e'. fst (build oc lib' os' rust_log' tty' b' w'') = Inl (Some e') \<and>
    (e' = LoggerAlreadySetup \<or> (\<exists>x. e' = LoggerSetup x) \<or> (\<exists>x. e' = CreateDirectory x))"
  by (rule build_with_subscriber [OF assms(4)]) (simp add: assms(5) build_late_failure [OF assms(1-3)])

text \<open>
  A node that was built has its inner node made from the converted configuration, the
  filters of its own directory, a kill signal that is off and a mempool of \<open>mempool_size\<close>
  megabytes, in bytes modulo \<open>2 ^ 64\<close>. With overflow checks the bytes did not wrap, and a build
  panics only where they do not fit.
\<close>

theorem build_wires_inner_node:
  assumes "build oc lib os rust_log tty b w = (r, w')"
  shows "case r of
      Inl e \<Rightarrow> e = None \<longrightarrow> oc \<and> 2 ^ 64 \<le> unat (mempool_size (builder_config b)) * 1000000
    | Inr n \<Rightarrow> (oc \<longrightarrow> unat (mempool_size (builder_config b)) * 1000000 < 2 ^ 64) \<and>
        (\<exists>st inner_node. utreexo_node_new lib (utreexo_config (assume_utreexo_of lib) (builder_config b)) st
           (mempool_new lib (of_nat (unat (mempool_size (builder_config b)) * 1000000)))
           (Some (filters_new lib (path_join (datadir (builder_config b)) ''filters''))) False
           (address_man_new lib (address_man_size (builder_config b)) (reachable_nets (builder_config b))) =
             Inr inner_node \<and>
         backend n = (st, filters_new lib (path_join (datadir (builder_config b)) ''filters''), inner_node))"
proof (cases r)
  case (Inl e)
  have "oc \<and> 2 ^ 64 \<le> unat (mempool_size (builder_config b)) * 1000000" if "e = None"
    using assms Inl that unfolding build_def Let_def build_logger_def [symmetric]
    by (auto simp: bindE_Inl checked_def mul_arith_def BYTES_PER_MB_def
        split: if_splits dest: on_files_error build_logger_error)
  with Inl show ?thesis by simp
next
  case (Inr n)
  with assms show ?thesis
    by (auto simp: build_def Let_def bindE_Inr checked_def mul_arith_def BYTES_PER_MB_def not_le
        split: if_splits)
qed

section \<open>A library to compute with\<close>

definition sample_builder_lib ::
  "(string list, nat, nat, nat, nat, unit, nat, unit, string, nat, nat, nat) builder_lib" where
  "sample_builder_lib = \<lparr>assume_utreexo_of = id, chain_store_new = (\<lambda>_ f. (Inr (), f)), hardcoded = 0,
     chain_state_open = (\<lambda>_ _ _ f. (Inr (), f)), filters_new = id, mempool_new = unat,
     address_man_new = (\<lambda>_ _. 0), utreexo_node_new = (\<lambda>_ _ m _ _ _. Inr m)\<rparr>"

definition sample_quiet_os :: "(string list, nat) os" where
  "sample_quiet_os = \<lparr>create_dir_all = (\<lambda>_ f. (Inr (), f)), open_append = (\<lambda>_ f. (Inr (), f))\<rparr>"

definition sample_builder :: "(nat, nat) builder" where
  "sample_builder = builder_new sample_config"

lemmas build_eqs = build_def Let_def bindE_def on_files_def checked_def mul_arith_def BYTES_PER_MB_def
  sample_builder_lib_def sample_quiet_os_def sample_builder_def builder_new_def sample_config_def
  sample_process_def

theorem build_gives_fresh_node_witness:
  "\<exists>n. fst (build True sample_builder_lib sample_quiet_os None False sample_builder sample_process) = Inr n \<and>
     state n = Inactive \<and> \<not> log_guard n"
proof -
  obtain n w' where b: "build True sample_builder_lib sample_quiet_os None False sample_builder sample_process =
      (Inr n, w')" by (simp add: build_eqs)
  from build_gives_fresh_node [OF b] b show ?thesis by (auto simp: sample_builder_def builder_new_def)
qed

theorem build_wires_inner_node_witness:
  "\<exists>n. fst (build True sample_builder_lib sample_quiet_os None False sample_builder sample_process) = Inr n \<and>
     snd (snd (backend n)) = 100000000"
proof -
  obtain n w' where b: "build True sample_builder_lib sample_quiet_os None False sample_builder sample_process =
      (Inr n, w')" by (simp add: build_eqs)
  from build_wires_inner_node [OF b] b show ?thesis
    by (auto simp: sample_builder_lib_def sample_builder_def builder_new_def sample_config_def)
qed

text \<open>A library whose chain store cannot be opened, and a builder with the default logger.\<close>

definition failing_lib ::
  "(string list, nat, nat, nat, nat, unit, nat, unit, string, nat, nat, nat) builder_lib" where
  "failing_lib = sample_builder_lib\<lparr>chain_store_new := (\<lambda>_ f. (Inl 1, f))\<rparr>"

definition logging_builder :: "(nat, nat) builder" where
  "logging_builder = with_logger logger_default sample_builder"

theorem failed_build_blocks_logger_witness:
  "\<exists>w'. (build True failing_lib sample_quiet_os None False logging_builder sample_process =
       (Inl (Some (ChainStoreInit 1)), w')) \<and>
     (\<exists>e. fst (build True sample_builder_lib sample_quiet_os None False logging_builder w') = Inl (Some e))"
proof -
  obtain w' where b: "build True failing_lib sample_quiet_os None False logging_builder sample_process =
      (Inl (Some (ChainStoreInit 1)), w')"
    by (simp add: build_eqs failing_lib_def logging_builder_def with_logger_def logger_default_def
        logger_init_def mapE_def)
  have l: "builder_logger logging_builder \<noteq> None"
    by (simp add: logging_builder_def with_logger_def)
  from failed_build_blocks_logger [OF b l _ l refl, of sample_builder_lib sample_quiet_os None False] b
  show ?thesis by blast
qed

text \<open>
  The configured \<open>assume_valid\<close> reaches neither the chain state nor the inner node, and the
  default directory has the braces of an unfilled format in its name.
\<close>

lemma assume_valid_unused:
  "utreexo_config f (c\<lparr>assume_valid := v\<rparr>) = utreexo_config f c"
  by (simp add: utreexo_config_def)

lemma default_datadir:
  "datadir (node_config_default signet (\<lambda>_. ''signet'') ua nets) = ''./data/{}/signet''"
  by (simp add: node_config_default_def path_join_def rooted_def)

end
