(* ===== verification/Programs.thy ===== *)
theory Programs
  imports Subscriber ScanHandle Builder
begin

text \<open>
  How the example programs (\<open>src/examples\<close>) run: the statements of their \<open>main\<close>, with \<open>?\<close> at
  the fallible ones, next to the tasks of the node, the task of the scan and the subscriber, in
  every interleaving. The programs themselves are lists of these statements, in the theories
  \<open>ClientSignet\<close> and \<open>ClientRegtest\<close>.
\<close>

section \<open>Statements\<close>

text \<open>What a \<open>select!\<close> of \<open>main\<close> waits for besides a SIGINT.\<close>

datatype race = JoinScan | Mining

datatype stmt =
    InitLogger
  | Tool string
  | BuildNode
  | CallRun
  | AwaitRun
  | Print string
  | SpawnStatePrinter
  | SpawnActionPrinter
  | CreateWallet
  | NewClient
  | PrintBalance string
  | SpawnSubscriber
  | PrintCheckpoint
  | SpawnScan
  | Select "stmt list" race "stmt list"
  | StopScan
  | AwaitScan
  | AwaitSubscriber
  | UnwrapWallet
  | CancelNode
  | TakeTask
  | AwaitTask
  | ReturnOk

text \<open>The errors \<open>main\<close> can return; a tool is a call to the test framework of the regtest example.\<close>

datatype ('x, 'n) main_error =
    LoggerError "'x BuilderError"
  | BuildError "'x BuilderError"
  | RunError "'x NodeError"
  | WalletError
  | ClientFailed "('x, 'n) ClientError"
  | SubscriberJoin
  | ToolError string

datatype ('x, 'n) main_result = Returned "('x, 'n) main_error + unit" | Panicked

datatype subscriber_task = NotSpawned | Listening | SubscriberEnded "unit + unit"

text \<open>The sender of the scan's events, which the client and its watcher share.\<close>

datatype sender = NoSender | SenderHeld | SenderDropped

datatype mining = MiningWaits | MiningRuns | MiningDone "string + unit"

text \<open>
  \<open>events_sent\<close> is every event sent and \<open>events_read\<close> how many of them the subscriber has received;
  \<open>took_task\<close> says whether \<open>Node::shutdown\<close> found the handle of the shutdown task. \<open>executed\<close> is
  the statements executed, and \<open>early_shutdown\<close> whether the node was being shut down already when
  \<open>run\<close> returned.
\<close>

record ('n, 'r, 'w, 'x, 'f, 'v, 't, 'c) program =
  process :: "'f process"
  node_life :: "('n, 'r, 'w, 'x) sys option"
  wallet :: "'v option"
  wallet_refs :: nat
  handle :: "('x, 'n) ScanHandle option"
  subscriber :: subscriber_task
  event_sender :: sender
  events_sent :: "('t, 'c) ScanEvent list"
  events_read :: nat
  printers :: nat
  mining :: mining
  took_task :: bool
  lines_out :: log
  todo :: "stmt list"
  ended :: "('x, 'n) main_result option"
  executed :: "stmt list"
  early_shutdown :: bool

text \<open>
  The calls of a program, with its constants filled in. \<open>do_mine k\<close> is how its mining ends in the
  \<open>k\<close>-th of the ways the world can go, \<open>None\<close> by a panic.
\<close>

record ('n, 'r, 'w, 'x, 'f, 'v, 't, 'c, 'e, 'i) program_calls =
  do_init :: "'f process \<Rightarrow> ('x BuilderError + bool) \<times> 'f process"
  do_build :: "'f process \<Rightarrow> ('x BuilderError option + ('n, 'r, 'w) Node) \<times> 'f process"
  do_create :: "'v option"
  do_client :: "('n, 'r, 'w) Node \<Rightarrow> 'v \<Rightarrow> ('x, 'n) ClientError + unit"
  do_tool :: "string \<Rightarrow> string + unit"
  do_mine :: "nat \<Rightarrow> (string + unit) option"
  checkpoint_text :: "'v \<Rightarrow> string \<times> string"
  client_text :: "('x, 'n) ClientError \<Rightarrow> string"
  api :: "('v, 't, 'c, 'e, 'i) wallet_api"

definition fails :: "('x, 'n) main_error \<Rightarrow> ('n, 'r, 'w, 'x, 'f, 'v, 't, 'c) program \<Rightarrow> ('n, 'r, 'w, 'x, 'f, 'v, 't, 'c) program" where
  "fails e s = s\<lparr>ended := Some (Returned (Inl e)), todo := []\<rparr>"

definition panics :: "('n, 'r, 'w, 'x, 'f, 'v, 't, 'c) program \<Rightarrow> ('n, 'r, 'w, 'x, 'f, 'v, 't, 'c) program" where
  "panics s = s\<lparr>ended := Some Panicked, todo := []\<rparr>"

definition prints_line :: "string \<Rightarrow> ('n, 'r, 'w, 'x, 'f, 'v, 't, 'c) program \<Rightarrow> ('n, 'r, 'w, 'x, 'f, 'v, 't, 'c) program" where
  "prints_line line s = s\<lparr>lines_out := lines_out s @ [(INFO, line)]\<rparr>"

definition balance_line :: "('v, 't, 'c, 'e, 'i) wallet_api \<Rightarrow> string \<Rightarrow> 'v \<Rightarrow> string" where
  "balance_line wapi which w =
     ''> '' @ which @ ''-SCAN BALANCE: '' @ total_btc wapi w @ '' BTC, '' @ dec (utxo_count wapi w) @ '' UTXOs''"

text \<open>
  One statement. \<open>None\<close> is a statement that waits, or a \<open>select!\<close>, whose branches are steps of
  their own. A statement that uses what was not made yet has no step either.
\<close>

fun exec ::
  "('n, 'r, 'w, 'x, 'f, 'v, 't, 'c, 'e, 'i) program_calls \<Rightarrow> stmt \<Rightarrow>
   ('n, 'r, 'w, 'x, 'f, 'v, 't, 'c) program \<Rightarrow> ('n, 'r, 'w, 'x, 'f, 'v, 't, 'c) program option" where
  "exec su InitLogger s =
     (case do_init su (process s) of
        (Inl e, p) \<Rightarrow> Some (fails (LoggerError e) (s\<lparr>process := p\<rparr>))
      | (Inr _, p) \<Rightarrow> Some (s\<lparr>process := p\<rparr>))"
| "exec su (Tool name) s =
     (case do_tool su name of Inl e \<Rightarrow> Some (fails (ToolError e) s) | Inr _ \<Rightarrow> Some s)"
| "exec su BuildNode s =
     (case do_build su (process s) of
        (Inl None, p) \<Rightarrow> Some (panics (s\<lparr>process := p\<rparr>))
      | (Inl (Some e), p) \<Rightarrow> Some (fails (BuildError e) (s\<lparr>process := p\<rparr>))
      | (Inr n, p) \<Rightarrow> Some (s\<lparr>process := p, node_life := Some (start_sys n)\<rparr>))"
| "exec su CallRun s =
     (case node_life s of
        None \<Rightarrow> None
      | Some l \<Rightarrow>
          if inner l then Some (s\<lparr>node_life := Some (run_take l)\<rparr>)
          else Some (fails (RunError AlreadyRunning) (s\<lparr>node_life := Some (run_take l)\<rparr>)))"
| "exec su AwaitRun s =
     (case node_life s of
        None \<Rightarrow> None
      | Some l \<Rightarrow>
          (case run_at l of
             RunReturned (Inl e) \<Rightarrow> Some (fails (RunError e) s)
           | RunReturned (Inr _) \<Rightarrow> Some (s\<lparr>early_shutdown := \<not> before_shutdown (shutdown_at l)\<rparr>)
           | _ \<Rightarrow> None))"
| "exec su (Print line) s = Some (prints_line line s)"
| "exec su SpawnStatePrinter s = Some (s\<lparr>printers := Suc (printers s)\<rparr>)"
| "exec su SpawnActionPrinter s = Some (s\<lparr>printers := Suc (printers s)\<rparr>)"
| "exec su CreateWallet s =
     (case do_create su of
        None \<Rightarrow> Some (fails WalletError s)
      | Some w \<Rightarrow> Some (s\<lparr>wallet := Some w\<rparr>))"
| "exec su NewClient s =
     (case (node_life s, wallet s) of
        (Some l, Some w) \<Rightarrow>
          (case do_client su (Node.truncate l) w of
             Inl e \<Rightarrow> Some (fails (ClientFailed e) s)
           | Inr _ \<Rightarrow> Some (s\<lparr>event_sender := SenderHeld\<rparr>))
      | _ \<Rightarrow> None)"
| "exec su (PrintBalance which) s =
     (case wallet s of
        None \<Rightarrow> None
      | Some w \<Rightarrow> Some (prints_line (balance_line (api su) which w) s))"
| "exec su SpawnSubscriber s = Some (s\<lparr>wallet_refs := 2, subscriber := Listening\<rparr>)"
| "exec su PrintCheckpoint s =
     (case wallet s of
        None \<Rightarrow> None
      | Some w \<Rightarrow>
          (case checkpoint_text su w of (height, hash) \<Rightarrow>
            Some (prints_line (''> STARTING CONTINUOUS FULLSCAN FROM CHECKPOINT=[height='' @ height @
              '' hash='' @ hash @ '']'') s)))"
| "exec su SpawnScan s = Some (s\<lparr>handle := Some (new_handle False Running)\<rparr>)"
| "exec su (Select sigint_branch other other_branch) s = None"
| "exec su StopScan s =
     (case handle s of None \<Rightarrow> None | Some h \<Rightarrow> Some (s\<lparr>handle := Some (snd (stop h))\<rparr>))"
| "exec su AwaitScan s =
     (case handle s of None \<Rightarrow> None | Some h \<Rightarrow> if task h = Running then None else Some s)"
| "exec su AwaitSubscriber s =
     (case subscriber s of
        SubscriberEnded (Inr _) \<Rightarrow> Some s
      | SubscriberEnded (Inl _) \<Rightarrow> Some (fails SubscriberJoin s)
      | _ \<Rightarrow> None)"
| "exec su UnwrapWallet s =
     (if wallet_refs s = 1 then Some (s\<lparr>wallet_refs := 0\<rparr>) else Some (panics s))"
| "exec su CancelNode s =
     (case node_life s of None \<Rightarrow> None | Some l \<Rightarrow> Some (s\<lparr>node_life := Some (shutdown_cancel l)\<rparr>))"
| "exec su TakeTask s =
     (case node_life s of
        None \<Rightarrow> None
      | Some l \<Rightarrow> Some (s\<lparr>node_life := Some (shutdown_take l), took_task := shutdown_task l\<rparr>))"
| "exec su AwaitTask s =
     (case node_life s of
        None \<Rightarrow> None
      | Some l \<Rightarrow> if took_task s \<and> shutdown_at l \<noteq> ShutdownDone then None else Some s)"
| "exec su ReturnOk s = Some (s\<lparr>ended := Some (Returned (Inr ())), todo := []\<rparr>)"

section \<open>The tasks around \<open>main\<close>\<close>

definition next_stmt :: "stmt \<Rightarrow> stmt list \<Rightarrow> ('n, 'r, 'w, 'x, 'f, 'v, 't, 'c) program \<Rightarrow> ('n, 'r, 'w, 'x, 'f, 'v, 't, 'c) program" where
  "next_stmt st rest s = s\<lparr>todo := rest, executed := executed s @ [st]\<rparr>"

definition scan_over :: "('n, 'r, 'w, 'x, 'f, 'v, 't, 'c) program \<Rightarrow> bool" where
  "scan_over s \<longleftrightarrow> (\<exists>h. handle s = Some h \<and> task h \<noteq> Running)"

text \<open>
  A step of the process. The scan sends events while its task runs, one at a time, and the
  subscriber receives them in order. The sender goes with the client at the end of the scan's task, or
  before, when the watcher finds the node's token cancelled; the subscriber's share of the wallet
  goes with the subscriber, however it ends.
\<close>

inductive program_step ::
  "('n, 'r, 'w, 'x, 'f, 'v, 't, 'c, 'e, 'i) program_calls \<Rightarrow> bool \<Rightarrow>
   ('n, 'r, 'w, 'x, 'f, 'v, 't, 'c) program \<Rightarrow> ('n, 'r, 'w, 'x, 'f, 'v, 't, 'c) program \<Rightarrow> bool"
  for su oc where
  main_step: "todo s = st # rest \<Longrightarrow> exec su st (next_stmt st rest s) = Some t \<Longrightarrow> program_step su oc s t"
| select_sigint: "todo s = Select a other b # rest \<Longrightarrow> program_step su oc s (s\<lparr>todo := a @ rest\<rparr>)"
| select_joined: "todo s = Select a JoinScan b # rest \<Longrightarrow> handle s = Some h \<Longrightarrow> join h = (Some r, h') \<Longrightarrow>
    program_step su oc s (s\<lparr>handle := Some h', todo := b @ rest, lines_out := lines_out s @
      (case r of Inl e \<Rightarrow> [(ERROR, ''> SCAN ERROR: '' @ client_text su e)] | Inr _ \<Rightarrow> [])\<rparr>)"
| mining_starts: "todo s = Select a Mining b # rest \<Longrightarrow> mining s = MiningWaits \<Longrightarrow> node_life s = Some l \<Longrightarrow>
    state l = Operational \<Longrightarrow> program_step su oc s (s\<lparr>mining := MiningRuns\<rparr>)"
| mining_ends: "todo s = Select a Mining b # rest \<Longrightarrow> mining s = MiningRuns \<Longrightarrow> do_mine su k = Some r \<Longrightarrow>
    program_step su oc s (s\<lparr>mining := MiningDone r\<rparr>)"
| mining_panics: "todo s = Select a Mining b # rest \<Longrightarrow> mining s = MiningRuns \<Longrightarrow> do_mine su k = None \<Longrightarrow>
    program_step su oc s (panics s)"
| select_mined: "todo s = Select a Mining b # rest \<Longrightarrow> mining s = MiningDone r \<Longrightarrow>
    program_step su oc s (s\<lparr>todo := b @ rest, lines_out := lines_out s @
      (case r of Inl e \<Rightarrow> [(ERROR, ''> SCAN ERROR: '' @ e)] | Inr _ \<Rightarrow> [])\<rparr>)"
| node_task: "node_life s = Some l \<Longrightarrow> task_step oc l l' \<Longrightarrow> program_step su oc s (s\<lparr>node_life := Some l'\<rparr>)"
| scan_sends: "handle s = Some h \<Longrightarrow> task h = Running \<Longrightarrow> event_sender s = SenderHeld \<Longrightarrow>
    program_step su oc s (s\<lparr>events_sent := events_sent s @ [event]\<rparr>)"
| scan_ends: "handle s = Some h \<Longrightarrow> task h = Running \<Longrightarrow> t \<noteq> Running \<Longrightarrow>
    program_step su oc s (s\<lparr>handle := Some (h\<lparr>task := t\<rparr>), event_sender := SenderDropped\<rparr>)"
| watcher_drops: "event_sender s = SenderHeld \<Longrightarrow> node_life s = Some l \<Longrightarrow> cancellation_token l \<Longrightarrow>
    program_step su oc s (s\<lparr>event_sender := SenderDropped\<rparr>)"
| subscriber_receives: "subscriber s = Listening \<Longrightarrow> wallet s = Some w \<Longrightarrow> events_read s < length (events_sent s) \<Longrightarrow>
    on_scan_event (api su) (events_sent s ! events_read s) w = (l, over, w') \<Longrightarrow>
    program_step su oc s (s\<lparr>wallet := Some w', lines_out := lines_out s @ l, events_read := Suc (events_read s),
      subscriber := (if over then SubscriberEnded (Inr ()) else Listening),
      wallet_refs := (if over then wallet_refs s - 1 else wallet_refs s)\<rparr>)"
| subscriber_ends: "subscriber s = Listening \<Longrightarrow> event_sender s = SenderDropped \<Longrightarrow> events_read s = length (events_sent s) \<Longrightarrow>
    program_step su oc s (s\<lparr>subscriber := SubscriberEnded (Inr ()), wallet_refs := wallet_refs s - 1\<rparr>)"
| subscriber_panics: "subscriber s = Listening \<Longrightarrow>
    program_step su oc s (s\<lparr>subscriber := SubscriberEnded (Inl ()), wallet_refs := wallet_refs s - 1\<rparr>)"

inductive running_program ::
  "('n, 'r, 'w, 'x, 'f, 'v, 't, 'c, 'e, 'i) program_calls \<Rightarrow> bool \<Rightarrow> stmt list \<Rightarrow>
   ('n, 'r, 'w, 'x, 'f, 'v, 't, 'c) program \<Rightarrow> bool"
  for su oc main where
  starts: "node_life s = None \<Longrightarrow> wallet s = None \<Longrightarrow> wallet_refs s = 0 \<Longrightarrow> handle s = None \<Longrightarrow>
    subscriber s = NotSpawned \<Longrightarrow> event_sender s = NoSender \<Longrightarrow> events_sent s = [] \<Longrightarrow> events_read s = 0 \<Longrightarrow>
    mining s = MiningWaits \<Longrightarrow> ended s = None \<Longrightarrow> executed s = [] \<Longrightarrow> todo s = main \<Longrightarrow> running_program su oc main s"
| runs_on: "running_program su oc main s \<Longrightarrow> program_step su oc s t \<Longrightarrow> running_program su oc main t"

section \<open>The calls of the examples\<close>

text \<open>
  What the examples use of the wallet library: creating a wallet from two descriptors for a
  network, which the wallet keeps for life, its tip and index, revealing an address.
\<close>

record ('n, 'v, 'c, 'd) wallet_maker =
  create_wallet :: "string \<Rightarrow> string \<Rightarrow> 'n \<Rightarrow> 'v option"
  tip_of :: "'v \<Rightarrow> 'c"
  index_of :: "'v \<Rightarrow> 'd"
  reveal :: "KeychainKind \<Rightarrow> 'v \<Rightarrow> string \<times> 'v"
  tip_text :: "'c \<Rightarrow> string \<times> string"

definition wallet_view :: "('n, 'v, 'c, 'd) wallet_maker \<Rightarrow> 'n \<Rightarrow> 'v \<Rightarrow> ('n, 'c, 'd) Wallet" where
  "wallet_view wm net w = \<lparr>wallet_network = net, latest_checkpoint = tip_of wm w, spk_index = index_of wm w\<rparr>"

text \<open>\<open>Client::new\<close>, of which \<open>main\<close> sees whether it fails.\<close>

definition new_client ::
  "('b, 'c, 'g, 'd, 't) wallet_lib \<Rightarrow> ('n, 'v, 'c, 'd) wallet_maker \<Rightarrow> 'n \<Rightarrow> ('n, 'r, 'w) Node \<Rightarrow> 'v \<Rightarrow>
   ('x, 'n) ClientError + unit" where
  "new_client wl wm net n w =
     (case (client_new wl n (wallet_view wm net w) :: ('x, 'n) ClientError + ('n, 'r, 'w, 'b, 'c, 'g, 't) Client) of
        Inl e \<Rightarrow> Inl e
      | Inr _ \<Rightarrow> Inr ())"

text \<open>
  The logger and the builder of an example; both read the same environment, in which \<open>main\<close> has
  set \<open>RUST_LOG\<close>. \<open>tty\<close> says whether the standard output is a terminal.
\<close>

definition example_calls ::
  "bool \<Rightarrow> ('f, 'x, 'n, 'r, 'u, 's, 'vm, 'cs, 'k, 'm, 'a, 'inner) builder_lib \<Rightarrow> ('f, 'x) os \<Rightarrow> bool \<Rightarrow>
   string \<Rightarrow> Logger \<Rightarrow> ('n, 'r) NodeConfig \<Rightarrow>
   ('b, 'c, 'g, 'd, 't) wallet_lib \<Rightarrow> ('n, 'v, 'c, 'd) wallet_maker \<Rightarrow> 'v option \<Rightarrow>
   (string \<Rightarrow> string + unit) \<Rightarrow> (nat \<Rightarrow> (string + unit) option) \<Rightarrow>
   (('x, 'n) ClientError \<Rightarrow> string) \<Rightarrow> ('v, 't, 'c, 'e, 'i) wallet_api \<Rightarrow>
   ('n, 'r, 'cs \<times> 'k \<times> 'inner, 'x, 'f, 'v, 't, 'c, 'e, 'i) program_calls" where
  "example_calls oc lib os tty rust_log lg cfg wl wm created tools mine err_text wapi =
     \<lparr>do_init = logger_init os (Some rust_log) tty lg,
      do_build = build oc lib os (Some rust_log) tty \<lparr>builder_config = cfg, builder_logger = None\<rparr>,
      do_create = created,
      do_client = new_client wl wm (network cfg),
      do_tool = tools,
      do_mine = mine,
      checkpoint_text = (\<lambda>w. tip_text wm (tip_of wm w)),
      client_text = err_text,
      api = wapi\<rparr>"

lemma build_fresh:
  assumes "build oc lib os rust_log tty b w = (Inr n, w')"
  shows "config n = builder_config b \<and> built (start_sys n)"
  using assms by (auto simp: build_def Let_def bindE_Inr start_sys_def built_def)

lemma build_panics_by_mempool:
  assumes "build oc lib os rust_log tty b w = (Inl None, w')" and "builder_logger b = None"
  shows "mul_arith oc (mempool_size (builder_config b)) BYTES_PER_MB = None"
  using assms
  by (auto simp: build_def Let_def bindE_Inl checked_def dest!: on_files_error)

end
