(* ===== verification/ProgramFacts.thy ===== *)
theory ProgramFacts
  imports Programs
begin

text \<open>
  What holds of every example program in every interleaving: the statements are executed in
  order, what a statement uses has been made before, the node goes through its life, the wallet has one owner
  when it is taken back, and the errors and panics that are left. Only the build and the list of
  the statements enter: the locale \<open>program_contract\<close> states what is relied on of them.
\<close>

section \<open>The order of the statements\<close>

text \<open>The statements a program can execute in turn, one list for each choice at its \<open>select!\<close>.\<close>

function traces :: "stmt list \<Rightarrow> stmt list list" where
  "traces [] = [[]]"
| "traces (Select a other b # rest) = traces (a @ rest) @ traces (b @ rest)"
| "(\<And>a other b. st \<noteq> Select a other b) \<Longrightarrow> traces (st # rest) = map ((#) st) (traces rest)"
  by (atomize_elim, metis list.exhaust) auto
termination by (relation "measure (size_list size)") auto

fun rank :: "stmt \<Rightarrow> nat" where
  "rank BuildNode = 1" | "rank CallRun = 2" | "rank AwaitRun = 3" | "rank NewClient = 4" | "rank SpawnSubscriber = 5"
| "rank SpawnScan = 6" | "rank StopScan = 7" | "rank AwaitScan = 8" | "rank AwaitSubscriber = 9"
| "rank UnwrapWallet = 10" | "rank CancelNode = 11" | "rank TakeTask = 12" | "rank AwaitTask = 13"
| "rank ReturnOk = 14" | "rank _ = 0"

text \<open>What must have been executed before a statement, for it not to be without what it uses.\<close>

fun needs :: "stmt \<Rightarrow> stmt list" where
  "needs CallRun = [BuildNode]" | "needs AwaitRun = [BuildNode, CallRun]"
| "needs NewClient = [BuildNode, CreateWallet]"
| "needs (PrintBalance which) = (if which = ''POST'' then [CreateWallet, AwaitSubscriber] else [CreateWallet])"
| "needs PrintCheckpoint = [CreateWallet]" | "needs SpawnSubscriber = [CreateWallet, NewClient]"
| "needs SpawnScan = [NewClient, SpawnSubscriber]" | "needs StopScan = [SpawnScan]" | "needs AwaitScan = [SpawnScan]"
| "needs AwaitSubscriber = [CreateWallet, SpawnSubscriber, AwaitScan]"
| "needs UnwrapWallet = [SpawnSubscriber, AwaitSubscriber]" | "needs CancelNode = [BuildNode, AwaitRun]"
| "needs TakeTask = [BuildNode, AwaitRun, CancelNode]" | "needs AwaitTask = [AwaitRun, CancelNode, TakeTask]"
| "needs _ = []"

fun needs_ok :: "stmt list \<Rightarrow> stmt list \<Rightarrow> bool" where
  "needs_ok before [] = True"
| "needs_ok before (st # t) = (list_all (\<lambda>x. x \<in> set before) (needs st) \<and> needs_ok (st # before) t)"

definition in_order :: "stmt list \<Rightarrow> bool" where
  "in_order t \<longleftrightarrow> sorted_wrt (<) (filter (\<lambda>k. k \<noteq> 0) (map rank t)) \<and> distinct t \<and> needs_ok [] t \<and>
     t \<noteq> [] \<and> last t = ReturnOk"

definition main_ok :: "stmt list \<Rightarrow> bool" where
  "main_ok main \<longleftrightarrow> list_all in_order (traces main)"

lemma traces_not_Nil [simp]: "traces main \<noteq> []"
  by (induction main rule: traces.induct) simp_all

definition on_trace :: "stmt list \<Rightarrow> ('n, 'r, 'w, 'x, 'f, 'v, 't, 'c) program \<Rightarrow> bool" where
  "on_trace main s \<longleftrightarrow> (\<forall>t \<in> set (traces (todo s)). executed s @ t \<in> set (traces main))"

lemma on_trace_next:
  assumes "main_ok main" and "on_trace main s" and "todo s = st # rest" and "\<And>a other b. st \<noteq> Select a other b"
  obtains t where "in_order (executed s @ st # t)" and "executed s @ st # t \<in> set (traces main)" and "t \<in> set (traces rest)"
proof -
  obtain t where t: "t \<in> set (traces rest)" using traces_not_Nil by (meson ex_in_conv set_empty)
  with assms(3,4) have "st # t \<in> set (traces (todo s))" by simp
  with assms(2) have "executed s @ st # t \<in> set (traces main)" by (simp add: on_trace_def)
  with assms(1) t that show ?thesis by (simp add: main_ok_def list_all_iff)
qed

lemma in_order_before:
  assumes "in_order (ex @ st # t)" and "x \<in> set ex" and "rank x \<noteq> 0" and "rank st \<noteq> 0"
  shows "rank x < rank st"
  using assms by (auto simp: in_order_def sorted_wrt_append)

lemma needs_ok_append: "needs_ok before (ex @ t) \<Longrightarrow> needs_ok (rev ex @ before) t"
  by (induction ex arbitrary: before) auto

lemma in_order_needs:
  assumes "in_order (ex @ st # t)" and "x \<in> set (needs st)"
  shows "x \<in> set ex"
  using assms needs_ok_append [of "[]" ex "st # t"] by (auto simp: in_order_def list_all_iff)

lemma in_order_end:
  assumes "in_order (ex @ ReturnOk # t)"
  shows "t = []"
proof (rule ccontr)
  assume "t \<noteq> []"
  with assms have "last t = ReturnOk" by (simp add: in_order_def)
  with \<open>t \<noteq> []\<close> have "ReturnOk \<in> set t" by (metis last_in_set)
  with assms show False by (auto simp: in_order_def sorted_wrt_append)
qed

section \<open>What every step keeps\<close>

subsection \<open>The node\<close>

definition node_ok :: "bool \<Rightarrow> ('n, 'r) NodeConfig \<Rightarrow> ('n, 'r, 'w, 'x, 'f, 'v, 't, 'c) program \<Rightarrow> bool" where
  "node_ok oc cfg s \<longleftrightarrow>
     (case node_life s of
        None \<Rightarrow> set (executed s) \<inter> {CallRun, AwaitRun, CancelNode, TakeTask, AwaitTask} = {}
      | Some l \<Rightarrow> reachable oc l \<and> config l = cfg \<and>
          (CallRun \<notin> set (executed s) \<longleftrightarrow> run_at l = RunIdle) \<and>
          (AwaitRun \<in> set (executed s) \<longrightarrow> run_done (run_at l) \<and> (\<not> early_shutdown s \<longrightarrow> orderly l)) \<and>
          (run_at l = RunSetActive \<or> run_done (run_at l) \<longrightarrow> TakeTask \<notin> set (executed s) \<longrightarrow> shutdown_task l) \<and>
          (CancelNode \<in> set (executed s) \<longrightarrow> cancellation_token l) \<and>
          (TakeTask \<in> set (executed s) \<and> AwaitRun \<in> set (executed s) \<longrightarrow> took_task s) \<and>
          (AwaitTask \<in> set (executed s) \<and> took_task s \<longrightarrow> shutdown_at l = ShutdownDone))"

lemma task_step_frame:
  assumes "task_step oc l l'" and "run_inv l"
  shows "config l' = config l \<and> (run_at l' = RunIdle \<longleftrightarrow> run_at l = RunIdle) \<and>
    (run_done (run_at l) \<longrightarrow> run_done (run_at l')) \<and> (cancellation_token l \<longrightarrow> cancellation_token l') \<and>
    (shutdown_at l = ShutdownDone \<longrightarrow> shutdown_at l' = ShutdownDone) \<and>
    ((run_at l = RunSetActive \<or> run_done (run_at l) \<longrightarrow> shutdown_task l) \<longrightarrow>
      (run_at l' = RunSetActive \<or> run_done (run_at l') \<longrightarrow> shutdown_task l'))"
  using assms
proof (induction rule: task_step.induct)
  case (run_goes_on now s t)
  then show ?case by (cases "run_at s") (auto simp: run_return_def run_inv_def)
next
  case (shutdown_goes_on s t)
  then show ?case by (cases "shutdown_at s") auto
next
  case (update_polls s o1)
  show ?case by (auto simp: update_poll_def split: option.splits prod.splits)
qed auto

lemma node_ok_task:
  assumes "node_ok oc cfg s" and "node_life s = Some l" and "task_step oc l l'"
  shows "node_ok oc cfg (s\<lparr>node_life := Some l'\<rparr>)"
proof -
  from assms(1,2) have r: "reachable oc l" by (simp add: node_ok_def)
  with reachable_inv have "run_inv l" by (auto simp: lifecycle_inv_def)
  note frame = task_step_frame [OF assms(3) this]
  have "reachable oc l'" by (rule reachable.go [OF r task_step_is_step [OF assms(3)]])
  moreover have "orderly l \<longrightarrow> orderly l'" using orderly_step [OF task_step_is_step [OF assms(3)]] by blast
  ultimately show ?thesis
    using frame assms(1,2) by (simp add: node_ok_def)
qed

lemma node_ok_frame:
  "node_life t = node_life s \<Longrightarrow> executed t = executed s \<Longrightarrow> early_shutdown t = early_shutdown s \<Longrightarrow>
    took_task t = took_task s \<Longrightarrow> node_ok oc cfg t = node_ok oc cfg s"
  by (cases "node_life s") (simp_all add: node_ok_def)

lemma node_ok_update [simp]:
  "node_ok oc cfg (s\<lparr>mining := x1\<rparr>) = node_ok oc cfg s" "node_ok oc cfg (s\<lparr>wallet := x2\<rparr>) = node_ok oc cfg s"
  "node_ok oc cfg (s\<lparr>lines_out := x3\<rparr>) = node_ok oc cfg s" "node_ok oc cfg (s\<lparr>handle := x4\<rparr>) = node_ok oc cfg s"
  "node_ok oc cfg (s\<lparr>subscriber := x5\<rparr>) = node_ok oc cfg s" "node_ok oc cfg (s\<lparr>todo := x7\<rparr>) = node_ok oc cfg s"
  "node_ok oc cfg (s\<lparr>events_sent := x9\<rparr>) = node_ok oc cfg s" "node_ok oc cfg (s\<lparr>events_read := x10\<rparr>) = node_ok oc cfg s"
  "node_ok oc cfg (s\<lparr>event_sender := x11\<rparr>) = node_ok oc cfg s"
  "node_ok oc cfg (s\<lparr>wallet_refs := x6\<rparr>) = node_ok oc cfg s" "node_ok oc cfg (s\<lparr>ended := x8\<rparr>) = node_ok oc cfg s"
  by (rule node_ok_frame; simp)+

lemma start_sys_simps [simp]:
  "run_at (start_sys n) = RunIdle" "config (start_sys n) = config n"
  by (simp_all add: start_sys_def)

lemma run_take_idle:
  assumes "reachable oc l" and "run_at l = RunIdle"
  shows "inner l" and "run_at (run_take l) = RunSetStarted" and "config (run_take l) = config l"
proof -
  from reachable_inv [OF assms(1)] assms(2) show "inner l" by (simp add: lifecycle_inv_def run_inv_def)
  then show "run_at (run_take l) = RunSetStarted" "config (run_take l) = config l" by (simp_all add: run_take_def)
qed

lemma run_returns_ok: "reachable oc l \<Longrightarrow> run_at l = RunReturned r \<Longrightarrow> r = Inr ()"
  using reachable_inv [of oc l] by (simp add: lifecycle_inv_def run_inv_def)

lemma shutdown_call_simps [simp]:
  "run_at (shutdown_cancel l) = run_at l" "config (shutdown_cancel l) = config l"
  "shutdown_at (shutdown_cancel l) = shutdown_at l" "shutdown_task (shutdown_cancel l) = shutdown_task l"
  "cancellation_token (shutdown_cancel l)" "state (shutdown_cancel l) = state l"
  "run_at (shutdown_take l) = run_at l" "config (shutdown_take l) = config l"
  "shutdown_at (shutdown_take l) = shutdown_at l" "state (shutdown_take l) = state l"
  "cancellation_token (shutdown_take l) = cancellation_token l"
  by (simp_all add: shutdown_cancel_def shutdown_take_def)

lemma shutdown_call_reachable:
  "reachable oc l \<Longrightarrow> reachable oc (shutdown_cancel l)" "reachable oc l \<Longrightarrow> reachable oc (shutdown_take l)"
  by (auto intro: reachable.go step.cancel step.take_task)

lemma orderly_calls: "orderly l \<Longrightarrow> orderly (shutdown_cancel l)" "orderly l \<Longrightarrow> orderly (shutdown_take l)"
  by (rule orderly_step [OF step.cancel], assumption) (rule orderly_step [OF step.take_task])

lemma orderly_now:
  "reachable oc l \<Longrightarrow> run_done (run_at l) \<Longrightarrow> before_shutdown (shutdown_at l) \<Longrightarrow> orderly l"
  using reachable_inv [of oc l]
  by (auto simp: orderly_def lifecycle_inv_def state_inv_def before_shutdown_def mid_shutdown_def)

text \<open>A statement of \<open>main\<close>; those executed so far come before it in the order.\<close>

lemma node_ok_exec:
  assumes "node_ok oc cfg s" and "exec su st (next_stmt st rest s) = Some t"
    and "\<And>x. x \<in> set (executed s) \<Longrightarrow> rank x \<noteq> 0 \<Longrightarrow> rank st \<noteq> 0 \<Longrightarrow> rank x < rank st"
    and "\<And>p n p'. do_build su p = (Inr n, p') \<Longrightarrow> built (start_sys n :: ('n, 'r, 'w, 'x) sys) \<and> config n = cfg"
  shows "node_ok oc cfg (t :: ('n, 'r, 'w, 'x, 'f, 'v, 't, 'c) program)"
proof (cases "st \<in> {BuildNode, CallRun, AwaitRun, CancelNode, TakeTask, AwaitTask}")
  case True
  note order = assms(3)
  from True consider "st = BuildNode" | "st = CallRun" | "st = AwaitRun" | "st = CancelNode" | "st = TakeTask"
    | "st = AwaitTask" by auto
  then show ?thesis
  proof cases
    case 1
    then have none: "set (executed s) \<inter> {CallRun, AwaitRun, CancelNode, TakeTask, AwaitTask} = {}"
      using order by force
    show ?thesis
    proof (cases "\<exists>n p'. do_build su (process s) = (Inr n, p')")
      case True
      then obtain n p' where b: "do_build su (process s) = (Inr n, p')" by blast
      from assms(2) 1 b have t: "t = (next_stmt BuildNode rest s)\<lparr>process := p', node_life := Some (start_sys n)\<rparr>"
        by (simp add: next_stmt_def)
      from none reachable.start [OF conjunct1 [OF assms(4) [OF b]]] assms(4) [OF b] show ?thesis
        unfolding t by (auto simp: node_ok_def next_stmt_def)
    next
      case False
      with assms(2) 1 have "node_life t = node_life s" "executed t = executed s @ [BuildNode]"
        "early_shutdown t = early_shutdown s" "took_task t = took_task s"
        by (auto simp: next_stmt_def fails_def panics_def split: prod.splits sum.splits option.splits)
      with assms(1) show ?thesis by (cases "node_life s") (simp_all add: node_ok_def)
    qed
  next
    case 2
    then have none: "set (executed s) \<inter> {CallRun, AwaitRun, CancelNode, TakeTask, AwaitTask} = {}"
      using order by force
    from 2 assms(2) obtain l where l: "node_life s = Some l" by (auto simp: next_stmt_def split: option.splits)
    with none assms(1) have r: "reachable oc l" "run_at l = RunIdle" "config l = cfg" by (auto simp: node_ok_def)
    with 2 assms(2) l have t: "t = (next_stmt CallRun rest s)\<lparr>node_life := Some (run_take l)\<rparr>"
      by (simp add: next_stmt_def run_take_idle)
    from none r reachable.go [OF r(1) step.call_run] show ?thesis
      unfolding t by (simp add: node_ok_def next_stmt_def run_take_idle)
  next
    case 3
    then have none: "TakeTask \<notin> set (executed s)" "AwaitTask \<notin> set (executed s)" using order by force+
    from 3 assms(2) obtain l r where l: "node_life s = Some l" "run_at l = RunReturned r"
      by (auto simp: next_stmt_def split: option.splits run_pc.splits)
    with assms(1) have "reachable oc l" by (simp add: node_ok_def)
    with l run_returns_ok have r: "r = Inr ()" by blast
    with 3 assms(2) l have t: "t = (next_stmt AwaitRun rest s)\<lparr>early_shutdown := \<not> before_shutdown (shutdown_at l)\<rparr>"
      by (simp add: next_stmt_def)
    from assms(1) none l r orderly_now [OF \<open>reachable oc l\<close>] show ?thesis
      unfolding t by (auto simp: node_ok_def next_stmt_def)
  next
    case 4
    from 4 assms(2) obtain l where l: "node_life s = Some l"
      and t: "t = (next_stmt CancelNode rest s)\<lparr>node_life := Some (shutdown_cancel l)\<rparr>"
      by (auto simp: next_stmt_def split: option.splits)
    from assms(1) l show ?thesis
      unfolding t by (simp add: node_ok_def next_stmt_def orderly_calls shutdown_call_reachable)
  next
    case 5
    then have "AwaitTask \<notin> set (executed s) \<and> TakeTask \<notin> set (executed s)" using order by force
    moreover from 5 assms(2) obtain l where l: "node_life s = Some l"
      and t: "t = (next_stmt st rest s)\<lparr>node_life := Some (shutdown_take l), took_task := shutdown_task l\<rparr>"
      by (auto simp: next_stmt_def split: option.splits)
    ultimately show ?thesis
      using assms(1) unfolding t 5
      by (simp add: node_ok_def next_stmt_def orderly_calls shutdown_call_reachable)
  next
    case 6
    from 6 assms(2) obtain l where l: "node_life s = Some l" and d: "took_task s \<longrightarrow> shutdown_at l = ShutdownDone"
      and t: "t = next_stmt AwaitTask rest s"
      by (auto simp: next_stmt_def split: option.splits if_splits)
    from assms(1) l d show ?thesis unfolding t by (simp add: node_ok_def next_stmt_def)
  qed
next
  case False
  with assms(2) have "node_life t = node_life s \<and> executed t = executed s @ [st] \<and> early_shutdown t = early_shutdown s \<and>
      took_task t = took_task s"
    by (cases st) (auto simp: next_stmt_def fails_def panics_def prints_line_def
        split: prod.splits sum.splits option.splits if_splits subscriber_task.splits)
  with False assms(1) show ?thesis by (cases "node_life s") (auto simp: node_ok_def)
qed

subsection \<open>The wallet, the scan and the outcome\<close>

definition wallet_ok :: "('n, 'r, 'w, 'x, 'f, 'v, 't, 'c) program \<Rightarrow> bool" where
  "wallet_ok s \<longleftrightarrow>
     (SpawnSubscriber \<in> set (executed s) \<and> UnwrapWallet \<notin> set (executed s) \<longrightarrow>
        (subscriber s = Listening \<and> wallet_refs s = 2 \<or> (\<exists>r. subscriber s = SubscriberEnded r \<and> wallet_refs s = 1))) \<and>
     (AwaitSubscriber \<in> set (executed s) \<longrightarrow> (\<exists>r. subscriber s = SubscriberEnded r))"

definition handle_ok :: "('n, 'r, 'w, 'x, 'f, 'v, 't, 'c) program \<Rightarrow> bool" where
  "handle_ok s \<longleftrightarrow>
     (StopScan \<in> set (executed s) \<longrightarrow> (\<exists>h. handle s = Some h \<and> token h \<and> \<not> join_handle h)) \<and>
     (AwaitScan \<in> set (executed s) \<longrightarrow> scan_over s)"

text \<open>What has been made while \<open>main\<close> goes on.\<close>

definition made_ok :: "('n, 'r, 'w, 'x, 'f, 'v, 't, 'c) program \<Rightarrow> bool" where
  "made_ok s \<longleftrightarrow> ended s = None \<longrightarrow>
     (BuildNode \<in> set (executed s) \<longrightarrow> node_life s \<noteq> None) \<and>
     (CreateWallet \<in> set (executed s) \<longrightarrow> wallet s \<noteq> None) \<and>
     (SpawnScan \<in> set (executed s) \<longrightarrow> handle s \<noteq> None) \<and>
     (SpawnSubscriber \<in> set (executed s) \<longrightarrow> subscriber s \<noteq> NotSpawned) \<and>
     (AwaitSubscriber \<in> set (executed s) \<longrightarrow> subscriber s \<noteq> Listening) \<and>
     ReturnOk \<notin> set (executed s)"

text \<open>The errors that are left for \<open>main\<close>, and the panics.\<close>

definition can_fail ::
  "('n, 'r, 'w, 'x, 'f, 'v, 't, 'c, 'e, 'i) program_calls \<Rightarrow> ('x, 'n) main_error \<Rightarrow> bool" where
  "can_fail su e \<longleftrightarrow>
     (case e of
        LoggerError x \<Rightarrow> \<exists>p p'. do_init su p = (Inl x, p')
      | BuildError x \<Rightarrow> \<exists>p p'. do_build su p = (Inl (Some x), p')
      | WalletError \<Rightarrow> do_create su = None
      | SubscriberJoin \<Rightarrow> True
      | ToolError t \<Rightarrow> \<exists>name. do_tool su name = Inl t
      | _ \<Rightarrow> False)"

definition outcome_ok ::
  "('n, 'r, 'w, 'x, 'f, 'v, 't, 'c, 'e, 'i) program_calls \<Rightarrow> stmt list \<Rightarrow> ('n, 'r, 'w, 'x, 'f, 'v, 't, 'c) program \<Rightarrow> bool" where
  "outcome_ok su main s \<longleftrightarrow>
     (case ended s of
        None \<Rightarrow> on_trace main s
      | Some Panicked \<Rightarrow> todo s = [] \<and> ((\<exists>p p'. do_build su p = (Inl None, p')) \<or> (\<exists>k. do_mine su k = None))
      | Some (Returned (Inr _)) \<Rightarrow> todo s = [] \<and> executed s \<in> set (traces main)
      | Some (Returned (Inl e)) \<Rightarrow> todo s = [] \<and> can_fail su e)"

lemma outcome_ok_frame:
  "ended t = ended s \<Longrightarrow> todo t = todo s \<Longrightarrow> executed t = executed s \<Longrightarrow> outcome_ok su main t = outcome_ok su main s"
  by (simp add: outcome_ok_def on_trace_def split: option.split main_result.split sum.split)

lemma outcome_ok_update [simp]:
  "outcome_ok su main (s\<lparr>mining := x1\<rparr>) = outcome_ok su main s"
  "outcome_ok su main (s\<lparr>wallet := x2\<rparr>) = outcome_ok su main s"
  "outcome_ok su main (s\<lparr>lines_out := x3\<rparr>) = outcome_ok su main s"
  "outcome_ok su main (s\<lparr>handle := x4\<rparr>) = outcome_ok su main s"
  "outcome_ok su main (s\<lparr>subscriber := x5\<rparr>) = outcome_ok su main s"
  "outcome_ok su main (s\<lparr>wallet_refs := x6\<rparr>) = outcome_ok su main s"
  "outcome_ok su main (s\<lparr>events_sent := x8\<rparr>) = outcome_ok su main s"
  "outcome_ok su main (s\<lparr>events_read := x9\<rparr>) = outcome_ok su main s"
  "outcome_ok su main (s\<lparr>event_sender := x10\<rparr>) = outcome_ok su main s"
  "outcome_ok su main (s\<lparr>node_life := x7\<rparr>) = outcome_ok su main s"
  by (rule outcome_ok_frame; simp)+

lemma wallet_ok_exec:
  assumes "wallet_ok s" and "exec su st (next_stmt st rest s) = Some t"
    and "in_order (executed s @ st # tr)"
  shows "wallet_ok t"
proof (cases "st \<in> {SpawnSubscriber, AwaitSubscriber, UnwrapWallet}")
  case True
  note order = in_order_before [OF assms(3)]
  from True consider "st = SpawnSubscriber" | "st = AwaitSubscriber" | "st = UnwrapWallet" by auto
  then show ?thesis
  proof cases
    case 1
    then have "AwaitSubscriber \<notin> set (executed s)" using order by force
    with 1 assms(1,2) show ?thesis by (auto simp: wallet_ok_def next_stmt_def)
  next
    case 2
    with assms(1,2) show ?thesis
      by (auto simp: wallet_ok_def next_stmt_def fails_def split: subscriber_task.splits sum.splits)
  next
    case 3
    with assms(1,2) show ?thesis by (auto simp: wallet_ok_def next_stmt_def panics_def split: if_splits)
  qed
next
  case False
  with assms(2) have "subscriber t = subscriber s \<and> wallet_refs t = wallet_refs s \<and> executed t = executed s @ [st]"
    by (cases st) (auto simp: next_stmt_def fails_def panics_def prints_line_def
        split: prod.splits sum.splits option.splits if_splits run_pc.splits)
  with False assms(1) show ?thesis by (auto simp: wallet_ok_def)
qed

lemma stop_handle: "token (snd (stop h)) \<and> \<not> join_handle (snd (stop h)) \<and> task (snd (stop h)) = task h"
  by (simp add: stop_def Let_def)

lemma handle_ok_exec:
  assumes "handle_ok s" and "exec su st (next_stmt st rest s) = Some t"
    and "in_order (executed s @ st # tr)"
  shows "handle_ok t"
proof (cases "st \<in> {SpawnScan, StopScan, AwaitScan}")
  case True
  note order = in_order_before [OF assms(3)]
  from True consider "st = SpawnScan" | "st = StopScan" | "st = AwaitScan" by auto
  then show ?thesis
  proof cases
    case 1
    then have "StopScan \<notin> set (executed s) \<and> AwaitScan \<notin> set (executed s)" using order by force
    with 1 assms(1,2) show ?thesis by (auto simp: handle_ok_def next_stmt_def)
  next
    case 2
    with assms(1,2) show ?thesis
      by (auto simp: handle_ok_def next_stmt_def scan_over_def stop_handle split: option.splits)
  next
    case 3
    with assms(1,2) show ?thesis
      by (auto simp: handle_ok_def next_stmt_def scan_over_def split: option.splits if_splits)
  qed
next
  case False
  with assms(2) have "handle t = handle s \<and> executed t = executed s @ [st]"
    by (cases st) (auto simp: next_stmt_def fails_def panics_def prints_line_def
        split: prod.splits sum.splits option.splits if_splits run_pc.splits subscriber_task.splits)
  with False assms(1) show ?thesis by (auto simp: handle_ok_def scan_over_def)
qed

lemma exec_frame:
  assumes "exec su st (next_stmt st rest s) = Some t" and "ended t = None"
  shows "todo t = rest \<and> executed t = executed s @ [st]"
  using assms by (cases st) (auto simp: next_stmt_def fails_def panics_def prints_line_def
      split: prod.splits sum.splits option.splits if_splits run_pc.splits subscriber_task.splits)

lemma made_ok_exec:
  assumes "made_ok s" and "ended s = None" and "exec su st (next_stmt st rest s) = Some t"
    and "in_order (executed s @ st # tr)"
  shows "made_ok t"
proof (cases "ended t")
  case None
  have "(node_life s \<noteq> None \<or> st = BuildNode \<longrightarrow> node_life t \<noteq> None) \<and>
      (wallet s \<noteq> None \<or> st = CreateWallet \<longrightarrow> wallet t \<noteq> None) \<and>
      (handle s \<noteq> None \<or> st = SpawnScan \<longrightarrow> handle t \<noteq> None) \<and>
      (subscriber s \<noteq> NotSpawned \<or> st = SpawnSubscriber \<longrightarrow> subscriber t \<noteq> NotSpawned) \<and>
      (subscriber s \<noteq> Listening \<and> st \<noteq> SpawnSubscriber \<or> st = AwaitSubscriber \<longrightarrow> subscriber t \<noteq> Listening) \<and>
      st \<noteq> ReturnOk"
    using assms(3) None
    by (cases st) (auto simp: next_stmt_def fails_def panics_def prints_line_def
        split: prod.splits sum.splits option.splits if_splits run_pc.splits subscriber_task.splits)
  moreover have "st = SpawnSubscriber \<Longrightarrow> AwaitSubscriber \<notin> set (executed s)"
    using in_order_before [OF assms(4)] by force
  moreover have "set (executed t) = insert st (set (executed s))"
    using exec_frame [OF assms(3) None] by simp
  ultimately show ?thesis using assms(1,2) by (auto simp: made_ok_def)
qed (simp add: made_ok_def)

text \<open>
  The contract between a program and the calls it makes: a build gives a fresh node with the
  configuration \<open>cfg\<close>, for which the wallet is of the right network, and the statements are in order.
\<close>

locale program_contract =
  fixes su :: "('n, 'r, 'w, 'x, 'f, 'v, 't, 'c, 'e, 'i) program_calls"
    and cfg :: "('n, 'r) NodeConfig"
    and main :: "stmt list"
  assumes build_law: "do_build su p = (Inr n, p') \<Longrightarrow> built (start_sys n :: ('n, 'r, 'w, 'x) sys) \<and> config n = cfg"
    and client_law: "config m = cfg \<Longrightarrow> do_client su m w = Inr ()"
    and order_law: "main_ok main"
begin

definition program_ok :: "bool \<Rightarrow> ('n, 'r, 'w, 'x, 'f, 'v, 't, 'c) program \<Rightarrow> bool" where
  "program_ok oc s \<longleftrightarrow> node_ok oc cfg s \<and> wallet_ok s \<and> handle_ok s \<and> made_ok s \<and>
     outcome_ok su main s"

lemma exec_outcome:
  assumes "program_ok oc s" and "todo s = st # rest" and "ended s = None"
    and "exec su st (next_stmt st rest s) = Some t"
    and "in_order (executed s @ st # tr)" and "executed s @ st # tr \<in> set (traces main)"
  shows "outcome_ok su main t"
proof (cases "ended t")
  case None
  have "\<And>a other b. st \<noteq> Select a other b" using assms(4) by auto
  moreover have "on_trace main s" using assms(1,3) by (simp add: program_ok_def outcome_ok_def)
  ultimately have "on_trace main t"
    using exec_frame [OF assms(4) None] assms(2) by (auto simp: on_trace_def)
  with None show ?thesis by (simp add: outcome_ok_def)
next
  case (Some out)
  from assms(1) have node: "node_ok oc cfg s" and wal: "wallet_ok s" by (simp_all add: program_ok_def)
  note need = in_order_needs [OF assms(5)] and before = in_order_before [OF assms(5)]
  from Some assms(3,4) consider "st \<in> {InitLogger, BuildNode, CreateWallet, AwaitSubscriber} \<union> range Tool"
    | "st = AwaitRun" | "st = CallRun" | "st = NewClient" | "st = UnwrapWallet" | "st = ReturnOk"
    by (cases st) (auto simp: next_stmt_def prints_line_def
      split: prod.splits sum.splits option.splits if_splits run_pc.splits subscriber_task.splits)
  then show ?thesis
  proof cases
    case 1
    from 1 Some assms(3,4) show ?thesis
      by (elim UnE insertE imageE emptyE)
        (auto simp: outcome_ok_def can_fail_def next_stmt_def fails_def panics_def
          split: prod.splits sum.splits option.splits subscriber_task.splits, blast+)
  next
    case 2
    with Some assms(3,4) obtain l e where "node_life s = Some l" "run_at l = RunReturned (Inl e)"
      by (auto simp: next_stmt_def split: option.splits run_pc.splits sum.splits)
    with node run_returns_ok show ?thesis by (fastforce simp: node_ok_def)
  next
    case 3
    with before have "CallRun \<notin> set (executed s)" by force
    with 3 Some assms(3,4) node show ?thesis
      by (auto simp: next_stmt_def node_ok_def dest: run_take_idle(1) split: option.splits if_splits)
  next
    case 4
    with Some assms(3,4) node show ?thesis
      by (auto simp: next_stmt_def node_ok_def client_law Node.truncate_def split: option.splits sum.splits)
  next
    case 5
    with need before wal have "wallet_refs s = 1" by (force simp: wallet_ok_def)
    with 5 Some assms(3,4) show ?thesis by (auto simp: next_stmt_def)
  next
    case 6
    with assms(5) in_order_end have "tr = []" by blast
    with 6 assms(3,4,6) show ?thesis by (auto simp: outcome_ok_def next_stmt_def)
  qed
qed

lemma main_step_ok:
  assumes "program_ok oc s" and "todo s = st # rest" and "exec su st (next_stmt st rest s) = Some t"
  shows "program_ok oc t"
proof -
  from assms(1,2) have e: "ended s = None"
    by (auto simp: program_ok_def outcome_ok_def split: option.splits main_result.splits sum.splits)
  with assms(1) have "on_trace main s" by (simp add: program_ok_def outcome_ok_def)
  moreover have "\<And>a other b. st \<noteq> Select a other b" using assms(3) by auto
  ultimately obtain tr where tr: "in_order (executed s @ st # tr)" "executed s @ st # tr \<in> set (traces main)"
    using on_trace_next [OF order_law _ assms(2)] by blast
  from assms(1) node_ok_exec [OF _ assms(3) in_order_before [OF tr(1)] build_law]
    wallet_ok_exec [OF _ assms(3) tr(1)] handle_ok_exec [OF _ assms(3) tr(1)]
    made_ok_exec [OF _ e assms(3) tr(1)] exec_outcome [OF assms(1,2) e assms(3) tr]
  show ?thesis by (simp add: program_ok_def)
qed

lemma branch_ok:
  assumes "program_ok oc s" and "todo s = Select a other b # rest" and "xs \<in> {a, b}"
    and "handle_ok (s\<lparr>handle := h\<rparr>)" and "h = None \<Longrightarrow> handle s = None"
  shows "program_ok oc (s\<lparr>handle := h, todo := xs @ rest, lines_out := l\<rparr>)"
proof -
  from assms(1,2) have "ended s = None"
    by (auto simp: program_ok_def outcome_ok_def split: option.splits main_result.splits sum.splits)
  moreover have "on_trace main (s\<lparr>handle := h, todo := xs @ rest, lines_out := l\<rparr>)" if "on_trace main s"
    using that assms(2,3) by (auto simp: on_trace_def)
  moreover have "made_ok (s\<lparr>handle := h, todo := xs @ rest, lines_out := l\<rparr>)" if "made_ok s"
    using that assms(5) by (cases h) (simp_all add: made_ok_def)
  ultimately show ?thesis
    using assms(1,4) by (simp add: program_ok_def wallet_ok_def handle_ok_def scan_over_def outcome_ok_def)
qed

lemma join_handle_ok:
  "handle_ok s \<Longrightarrow> handle s = Some h \<Longrightarrow> join h = (r, h') \<Longrightarrow> handle_ok (s\<lparr>handle := Some h'\<rparr>)"
  by (auto simp: handle_ok_def scan_over_def join_def Let_def split: if_splits option.splits)

lemma mining_frame: "program_ok oc s \<Longrightarrow> program_ok oc (s\<lparr>mining := m\<rparr>)"
  by (simp add: program_ok_def wallet_ok_def handle_ok_def made_ok_def scan_over_def)

lemma subscriber_frame:
  assumes "program_ok oc s" and "subscriber s = Listening"
  shows "program_ok oc (s\<lparr>wallet := Some w, lines_out := l, events_read := k, subscriber := Listening\<rparr>)"
    and "program_ok oc (s\<lparr>wallet := Some w, lines_out := l, events_read := k, subscriber := SubscriberEnded r,
      wallet_refs := wallet_refs s - 1\<rparr>)"
    and "program_ok oc (s\<lparr>subscriber := SubscriberEnded r, wallet_refs := wallet_refs s - 1\<rparr>)"
  using assms by (auto simp: program_ok_def wallet_ok_def handle_ok_def made_ok_def scan_over_def)

lemma program_step_ok:
  assumes "program_step su oc s t" and "program_ok oc s"
  shows "program_ok oc t"
  using assms
proof (induction rule: program_step.induct)
  case (main_step s st rest t)
  with main_step_ok show ?case by blast
next
  case (select_sigint s a other b rest)
  then have "handle_ok (s\<lparr>handle := handle s\<rparr>)" by (simp add: program_ok_def)
  from branch_ok [OF select_sigint(2,1) _ this, where xs = a and l = "lines_out s"] show ?case by simp
next
  case (select_joined s a b rest h r h')
  then have "handle_ok (s\<lparr>handle := Some h'\<rparr>)" by (auto simp: program_ok_def intro: join_handle_ok)
  from branch_ok [OF select_joined(4,1) _ this] show ?case by simp
next
  case (mining_panics s a b rest k)
  from mining_panics(3) have "outcome_ok su main (panics s)" by (simp add: outcome_ok_def panics_def) blast
  with mining_panics(4) show ?case
    by (simp add: program_ok_def wallet_ok_def handle_ok_def made_ok_def scan_over_def panics_def)
next
  case (select_mined s a b rest r)
  then have "handle_ok (s\<lparr>handle := handle s\<rparr>)" by (simp add: program_ok_def)
  from branch_ok [OF select_mined(3,1) _ this] show ?case by simp
next
  case (node_task s l l')
  then have "node_ok oc cfg (s\<lparr>node_life := Some l'\<rparr>)" by (auto simp: program_ok_def intro: node_ok_task)
  with node_task show ?case
    by (simp add: program_ok_def wallet_ok_def handle_ok_def made_ok_def scan_over_def)
next
  case (scan_sends s h event)
  then show ?case by (simp add: program_ok_def wallet_ok_def handle_ok_def made_ok_def scan_over_def)
next
  case (scan_ends s h t)
  then show ?case by (auto simp: program_ok_def wallet_ok_def handle_ok_def made_ok_def scan_over_def)
next
  case (watcher_drops s l)
  then show ?case by (simp add: program_ok_def wallet_ok_def handle_ok_def made_ok_def scan_over_def)
next
  case (subscriber_receives s w l over w')
  from subscriber_frame(1,2) [OF subscriber_receives(5,1)] show ?case using subscriber_receives(1) by (cases over) simp_all
next
  case (subscriber_ends s)
  from subscriber_frame(3) [OF subscriber_ends(4,1)] show ?case .
next
  case (subscriber_panics s)
  from subscriber_frame(3) [OF subscriber_panics(2,1)] show ?case .
qed (simp_all add: mining_frame)

lemma running_ok: "running_program su oc main s \<Longrightarrow> program_ok oc s"
proof (induction rule: running_program.induct)
  case (starts s)
  then show ?case
    by (simp add: program_ok_def node_ok_def wallet_ok_def handle_ok_def made_ok_def outcome_ok_def on_trace_def)
qed (simp add: program_step_ok)

text \<open>A program that returns \<open>Ok\<close> on a trace with a shutdown leaves a node that is shut down.\<close>

lemma shut_down_at_end:
  assumes "running_program su oc main s" and "ended s = Some (Returned (Inr ()))"
    and "\<And>t. t \<in> set (traces main) \<Longrightarrow> t = executed s \<Longrightarrow>
      {AwaitRun, StopScan, AwaitScan, AwaitSubscriber, CancelNode, TakeTask, AwaitTask} \<subseteq> set t"
  shows "\<exists>l h r. node_life s = Some l \<and> shutdown_at l = ShutdownDone \<and> flushes l = 1 \<and> kill_signal l \<and>
    cancellation_token l \<and> (\<not> early_shutdown s \<longrightarrow> state l = Inactive) \<and>
    handle s = Some h \<and> token h \<and> task h \<noteq> Running \<and> subscriber s = SubscriberEnded r"
proof -
  note ok = running_ok [OF assms(1)]
  from ok assms(2) have "executed s \<in> set (traces main)" by (simp add: program_ok_def outcome_ok_def)
  from assms(3) [OF this refl] ok obtain l where l: "node_life s = Some l" "reachable oc l"
    "shutdown_at l = ShutdownDone" "\<not> early_shutdown s \<longrightarrow> orderly l"
    by (cases "node_life s") (auto simp: program_ok_def node_ok_def)
  moreover from reachable_inv [OF l(2)] l(3) have "flushes l = 1 \<and> kill_signal l \<and> cancellation_token l"
    by (simp add: lifecycle_inv_def shutdown_inv_def)
  moreover have "\<not> early_shutdown s \<longrightarrow> state l = Inactive" using l(3,4) by (simp add: orderly_def)
  moreover have "wallet_ok s" and "handle_ok s" using ok by (simp_all add: program_ok_def)
  ultimately show ?thesis
    using assms(3) [OF \<open>executed s \<in> set (traces main)\<close> refl]
    by (auto simp: wallet_ok_def handle_ok_def made_ok_def scan_over_def)
qed

end

text \<open>The laws of the contract, for the calls of the examples.\<close>

lemma example_build_law:
  "do_build (example_calls oc lib os tty rl lg cfg wl wm cr ts mn et wa) p = (Inr n, p') \<Longrightarrow>
    built (start_sys n) \<and> config n = cfg"
  using build_fresh by (fastforce simp: example_calls_def)

lemma example_client_law:
  "config n = cfg \<Longrightarrow> do_client (example_calls oc lib os tty rl lg cfg wl wm cr ts mn et wa) n w = Inr ()"
  by (simp add: example_calls_def new_client_def client_new_def wallet_view_def)

end
