(* ===== verification/ProgramWallet.thy ===== *)
theory ProgramWallet
  imports ProgramFacts
begin

text \<open>
  What the subscriber of an example program makes of the wallet, in every interleaving: the
  events sent before the first failure, in order and each once, are applied to the wallet that was
  created, all of them before the task ends, and the balance printed at the end is of that wallet.
\<close>

section \<open>What the subscriber has heard\<close>

definition heard :: "('n, 'r, 'w, 'x, 'f, 'v, 't, 'c) program \<Rightarrow> ('t, 'c) ScanEvent list" where
  "heard s = take (events_read s) (events_sent s)"

definition wallet_after ::
  "('n, 'r, 'w, 'x, 'f, 'v, 't, 'c, 'e, 'i) program_calls \<Rightarrow> ('t, 'c) ScanEvent list \<Rightarrow> 'v option" where
  "wallet_after su es = map_option (apply_all (api su) (updates_of es)) (do_create su)"

definition stopped_by_error :: "('t, 'c) ScanEvent list \<Rightarrow> bool" where
  "stopped_by_error es \<longleftrightarrow> (\<exists>es' e. es = es' @ [ScanError e] \<and> list_all goes_on es')"

lemma takeWhile_failed: "list_all goes_on es \<Longrightarrow> takeWhile goes_on ((es @ [ScanError e]) @ zs) = es"
  by (induction es) auto

lemma updates_before_failure:
  "list_all goes_on es \<Longrightarrow> updates_of (takeWhile goes_on es) = updates_of es"
  "list_all goes_on es \<Longrightarrow> updates_of (takeWhile goes_on (es @ [ScanError e])) = updates_of (es @ [ScanError e])"
proof -
  assume es: "list_all goes_on es"
  then have "takeWhile goes_on es = es" by (induction es) auto
  then show "updates_of (takeWhile goes_on es) = updates_of es" by (simp only:)
  show "updates_of (takeWhile goes_on (es @ [ScanError e])) = updates_of (es @ [ScanError e])"
    using takeWhile_failed [OF es, of e "[]"] by simp
qed

definition channel_ok :: "('n, 'r, 'w, 'x, 'f, 'v, 't, 'c) program \<Rightarrow> bool" where
  "channel_ok s \<longleftrightarrow>
     (handle s = None \<longrightarrow> events_sent s = []) \<and>
     (handle s \<noteq> None \<longrightarrow> SpawnScan \<in> set (executed s)) \<and>
     (\<forall>h. handle s = Some h \<longrightarrow> task h \<noteq> Running \<longrightarrow> event_sender s = SenderDropped) \<and>
     events_read s \<le> length (events_sent s) \<and>
     (SpawnSubscriber \<notin> set (executed s) \<longrightarrow> subscriber s = NotSpawned) \<and>
     (subscriber s = NotSpawned \<longrightarrow> events_read s = 0) \<and>
     (subscriber s = Listening \<longrightarrow> list_all goes_on (heard s)) \<and>
     (subscriber s = SubscriberEnded (Inr ()) \<longrightarrow> stopped_by_error (heard s) \<or>
        event_sender s = SenderDropped \<and> heard s = events_sent s \<and> list_all goes_on (heard s))"

definition scanned_ok ::
  "('n, 'r, 'w, 'x, 'f, 'v, 't, 'c, 'e, 'i) program_calls \<Rightarrow> ('n, 'r, 'w, 'x, 'f, 'v, 't, 'c) program \<Rightarrow> bool" where
  "scanned_ok su s \<longleftrightarrow>
     (wallet s \<noteq> None \<longrightarrow> wallet s = wallet_after su (heard s)) \<and>
     (ended s \<in> {None, Some (Returned (Inr ()))} \<longrightarrow> AwaitSubscriber \<in> set (executed s) \<longrightarrow>
        subscriber s = SubscriberEnded (Inr ())) \<and>
     (PrintBalance ''POST'' \<in> set (executed s) \<longrightarrow> AwaitSubscriber \<in> set (executed s) \<and>
        (\<exists>w. wallet s = Some w \<and> (INFO, balance_line (api su) ''POST'' w) \<in> set (lines_out s)))"

text \<open>Only a few statements touch what this is about.\<close>

lemma exec_elsewhere_fields:
  assumes "exec su st (next_stmt st rest s) = Some t"
    and "st \<notin> {CreateWallet, NewClient, SpawnSubscriber, SpawnScan, StopScan}"
  shows "(wallet t, handle t, subscriber t) = (wallet s, handle s, subscriber s)"
    and "(event_sender t, events_sent t, events_read t) = (event_sender s, events_sent s, events_read s)"
  by (insert assms, (cases st, auto simp: next_stmt_def fails_def panics_def prints_line_def
      split: prod.splits sum.splits option.splits if_splits run_pc.splits subscriber_task.splits)[1])+

lemma exec_lines:
  "exec su st (next_stmt st rest s) = Some t \<Longrightarrow> set (lines_out s) \<subseteq> set (lines_out t) \<and> executed t = executed s @ [st]"
  by (cases st) (auto simp: next_stmt_def fails_def panics_def prints_line_def
      split: prod.splits sum.splits option.splits if_splits run_pc.splits subscriber_task.splits)

lemma exec_elsewhere:
  assumes "exec su st (next_stmt st rest s) = Some t"
    and "st \<notin> {CreateWallet, NewClient, SpawnSubscriber, SpawnScan, StopScan}"
  shows "wallet t = wallet s \<and> subscriber t = subscriber s \<and> handle t = handle s \<and> event_sender t = event_sender s \<and>
    events_sent t = events_sent s \<and> events_read t = events_read s \<and> executed t = executed s @ [st]"
  using exec_elsewhere_fields [OF assms] exec_lines [OF assms(1)] by simp

lemma channel_ok_exec:
  assumes "channel_ok s" and "exec su st (next_stmt st rest s) = Some t" and "in_order (executed s @ st # tr)"
  shows "channel_ok t"
proof -
  note order = in_order_before [OF assms(3)] and need = in_order_needs [OF assms(3)]
  consider "st = CreateWallet" | "st = NewClient" | "st = SpawnSubscriber" | "st = SpawnScan" | "st = StopScan"
    | (Else) "st \<notin> {CreateWallet, NewClient, SpawnSubscriber, SpawnScan, StopScan}" by blast
  then show ?thesis
  proof cases
    case 1
    then have "subscriber t = subscriber s \<and> handle t = handle s \<and> event_sender t = event_sender s \<and>
        events_sent t = events_sent s \<and> events_read t = events_read s \<and> executed t = executed s @ [st]"
      using assms(2) by (auto simp: next_stmt_def fails_def split: option.splits)
    with 1 assms(1) show ?thesis by (simp add: channel_ok_def heard_def)
  next
    case 2
    then have none: "SpawnScan \<notin> set (executed s) \<and> SpawnSubscriber \<notin> set (executed s)" using order by force
    with assms(1) have "handle s = None" "subscriber s = NotSpawned" by (auto simp: channel_ok_def)
    moreover have "subscriber t = subscriber s \<and> handle t = handle s \<and>
        events_sent t = events_sent s \<and> events_read t = events_read s \<and> executed t = executed s @ [st]"
      using 2 assms(2) by (auto simp: next_stmt_def fails_def split: option.splits sum.splits)
    ultimately show ?thesis using 2 none assms(1) by (simp add: channel_ok_def heard_def)
  next
    case 3
    then have "SpawnSubscriber \<notin> set (executed s)" using order by force
    with 3 assms(1,2) show ?thesis by (auto simp: channel_ok_def heard_def next_stmt_def)
  next
    case 4
    then have "SpawnScan \<notin> set (executed s)" using order by force
    with assms(1) have "events_sent s = []" by (auto simp: channel_ok_def)
    with 4 assms(1,2) show ?thesis by (auto simp: channel_ok_def heard_def next_stmt_def new_handle_def)
  next
    case 5
    with assms(1,2) show ?thesis
      by (auto simp: channel_ok_def heard_def next_stmt_def stop_handle split: option.splits)
  next
    case Else
    with exec_elsewhere [OF assms(2) Else] assms(1) show ?thesis by (simp add: channel_ok_def heard_def)
  qed
qed

lemma in_order_earlier:
  assumes "in_order (ex @ t)" and "x \<in> set ex" and "y \<in> set (needs x)"
  shows "y \<in> set ex"
proof -
  from assms(2) obtain a b where ex: "ex = a @ x # b" by (meson split_list)
  with assms(1) have "in_order (a @ x # (b @ t))" by simp
  from in_order_needs [OF this assms(3)] ex show ?thesis by simp
qed

lemma scanned_ok_exec:
  assumes "scanned_ok su s" and "channel_ok s" and "ended s = None" and "exec su st (next_stmt st rest s) = Some t"
    and "in_order (executed s @ st # tr)"
  shows "scanned_ok su t"
proof -
  note order = in_order_before [OF assms(5)] and need = in_order_needs [OF assms(5)]
    and lines = exec_lines [OF assms(4)] and earlier = in_order_earlier [OF assms(5)]
  have "distinct (executed s @ st # tr)" using assms(5) by (simp add: in_order_def)
  then have new: "st \<notin> set (executed s)" by simp
  consider "st = CreateWallet" | (Early) "st \<in> {NewClient, SpawnSubscriber, SpawnScan, StopScan}"
    | "st = AwaitSubscriber" | "st = PrintBalance ''POST''"
    | (Else) "st \<notin> {CreateWallet, NewClient, SpawnSubscriber, SpawnScan, StopScan, AwaitSubscriber, PrintBalance ''POST''}"
    by blast
  then show ?thesis
  proof cases
    case 1
    with new earlier have "SpawnSubscriber \<notin> set (executed s)" "AwaitSubscriber \<notin> set (executed s)"
      "PrintBalance ''POST'' \<notin> set (executed s)" by force+
    moreover from this(1) assms(2) have "events_read s = 0" by (simp add: channel_ok_def)
    ultimately show ?thesis using 1 assms(1,3,4)
      by (auto simp: scanned_ok_def heard_def wallet_after_def apply_all_def next_stmt_def fails_def split: option.splits)
  next
    case Early
    then have "AwaitSubscriber \<notin> set (executed s)" using order by force
    with assms(1) have "PrintBalance ''POST'' \<notin> set (executed s)" by (auto simp: scanned_ok_def)
    moreover have "wallet t = wallet s \<and> heard t = heard s" using Early assms(4)
      by (auto simp: heard_def next_stmt_def fails_def split: option.splits sum.splits)
    ultimately show ?thesis
      using Early assms(1) lines \<open>AwaitSubscriber \<notin> set (executed s)\<close> by (auto simp: scanned_ok_def)
  next
    case 3
    then have "wallet t = wallet s" "heard t = heard s" "ended t \<in> {None, Some (Returned (Inr ()))} \<longrightarrow> subscriber t = SubscriberEnded (Inr ())"
      "PrintBalance ''POST'' \<in> set (executed t) \<longleftrightarrow> PrintBalance ''POST'' \<in> set (executed s)"
      using assms(3,4) by (auto simp: heard_def next_stmt_def fails_def split: subscriber_task.splits sum.splits)
    with assms(1) lines 3 show ?thesis by (auto simp: scanned_ok_def)
  next
    case 4
    with need have await: "AwaitSubscriber \<in> set (executed s)" by simp
    from 4 assms(4) obtain w where w: "wallet s = Some w"
      and t: "t = prints_line (balance_line (api su) ''POST'' w) (next_stmt st rest s)"
      by (auto simp: next_stmt_def split: option.splits)
    have eqs: "wallet t = wallet s" "heard t = heard s" "subscriber t = subscriber s"
      by (simp_all add: t heard_def next_stmt_def prints_line_def)
    have "\<exists>w. wallet t = Some w \<and> (INFO, balance_line (api su) ''POST'' w) \<in> set (lines_out t)"
      using w by (simp add: t next_stmt_def prints_line_def)
    moreover have "wallet t \<noteq> None \<longrightarrow> wallet t = wallet_after su (heard t)" and "subscriber t = SubscriberEnded (Inr ())"
      using assms(1,3) await unfolding eqs by (simp_all add: scanned_ok_def)
    ultimately show ?thesis using await lines unfolding scanned_ok_def by simp
  next
    case Else
    then have e: "wallet t = wallet s" "subscriber t = subscriber s" "heard t = heard s"
      using exec_elsewhere [OF assms(4)] by (simp_all add: heard_def)
    have "AwaitSubscriber \<in> set (executed t) \<longleftrightarrow> AwaitSubscriber \<in> set (executed s)"
      "PrintBalance ''POST'' \<in> set (executed t) \<longleftrightarrow> PrintBalance ''POST'' \<in> set (executed s)"
      using Else lines by auto
    with assms(1,3) e lines show ?thesis by (auto simp: scanned_ok_def)
  qed
qed

context program_contract
begin

definition hears_ok :: "('n, 'r, 'w, 'x, 'f, 'v, 't, 'c) program \<Rightarrow> bool" where
  "hears_ok s \<longleftrightarrow> channel_ok s \<and> scanned_ok su s"

lemma hears_main_step:
  assumes "program_ok oc s" and "todo s = st # rest" and "exec su st (next_stmt st rest s) = Some t" and "hears_ok s"
  shows "hears_ok t"
proof -
  from assms(1,2) have e: "ended s = None"
    by (auto simp: program_ok_def outcome_ok_def split: option.splits main_result.splits sum.splits)
  with assms(1) have "on_trace main s" by (simp add: program_ok_def outcome_ok_def)
  moreover have "\<And>a other b. st \<noteq> Select a other b" using assms(3) by auto
  ultimately obtain tr where tr: "in_order (executed s @ st # tr)"
    using on_trace_next [OF order_law _ assms(2)] by blast
  from channel_ok_exec [OF _ assms(3) tr] scanned_ok_exec [OF _ _ e assms(3) tr] assms(4) show ?thesis
    by (simp add: hears_ok_def)
qed

text \<open>An event received is the next one of those sent.\<close>

lemma hears_next:
  assumes "hears_ok s" and "subscriber s = Listening" and "wallet s = Some w" and "events_read s < length (events_sent s)"
    and "on_scan_event (api su) (events_sent s ! events_read s) w = (l, over, w')"
    and "AwaitSubscriber \<notin> set (executed s)"
  shows "hears_ok (s\<lparr>wallet := Some w', lines_out := lines_out s @ l, events_read := Suc (events_read s),
      subscriber := (if over then SubscriberEnded (Inr ()) else Listening), wallet_refs := n\<rparr>)"
proof -
  let ?e = "events_sent s ! events_read s"
  have h: "take (Suc (events_read s)) (events_sent s) = heard s @ [?e]"
    using assms(4) by (simp add: heard_def take_Suc_conv_app_nth)
  have w': "w' = apply_all (api su) (updates_of [?e]) w" and over: "over \<longleftrightarrow> (\<exists>x. ?e = ScanError x)" and go: "goes_on ?e \<longleftrightarrow> \<not> over"
    using assms(5) by (cases ?e; auto simp: apply_all_def split: prod.splits sum.splits)+
  have "wallet_after su (heard s) = Some w" using assms(1,3) by (auto simp: hears_ok_def scanned_ok_def)
  then have "Some w' = wallet_after su (heard s @ [?e])" unfolding w' by (auto simp: wallet_after_def apply_all_def)
  moreover have "PrintBalance ''POST'' \<notin> set (executed s)" using assms(1,6) by (auto simp: hears_ok_def scanned_ok_def)
  moreover have "list_all goes_on (heard s)" using assms(1,2) by (simp add: hears_ok_def channel_ok_def)
  ultimately show ?thesis
    using assms(1,2,4,6) h over go
    by (auto simp: hears_ok_def channel_ok_def scanned_ok_def heard_def stopped_by_error_def)
qed

lemma hears_frame:
  assumes "hears_ok s" and "wallet t = wallet s" and "subscriber t = subscriber s" and "event_sender t = event_sender s"
    and "events_sent t = events_sent s" and "events_read t = events_read s" and "executed t = executed s"
    and "set (lines_out s) \<subseteq> set (lines_out t)" and "ended t = ended s \<or> ended t = Some Panicked"
    and "handle t = handle s \<or> (\<exists>h h'. handle s = Some h \<and> handle t = Some h' \<and> task h' = task h)"
  shows "hears_ok t"
proof -
  have h: "heard t = heard s" using assms(5,6) by (simp add: heard_def)
  have task: "(handle t = None) = (handle s = None)"
    "(\<forall>h. handle t = Some h \<longrightarrow> task h \<noteq> Running \<longrightarrow> event_sender s = SenderDropped) =
      (\<forall>h. handle s = Some h \<longrightarrow> task h \<noteq> Running \<longrightarrow> event_sender s = SenderDropped)"
    using assms(10) by (elim disjE exE conjE; simp)+
  have "channel_ok t = channel_ok s" unfolding channel_ok_def assms(3-7) h task by (rule refl)
  moreover have "scanned_ok su t"
    using assms(1,8,9) h unfolding hears_ok_def scanned_ok_def assms(2,3,7) by auto
  ultimately show ?thesis using assms(1) by (simp add: hears_ok_def)
qed

lemma join_task: "join h = (r, h') \<Longrightarrow> task h' = task h"
  by (auto simp: join_def Let_def split: if_splits option.splits)

lemma hears_step:
  assumes "program_step su oc s t" and "program_ok oc s" and "hears_ok s"
  shows "hears_ok t"
  using assms
proof (induction rule: program_step.induct)
  case (main_step s st rest t)
  then show ?case using hears_main_step by blast
next
  case (select_joined s a b rest h r h')
  from select_joined(5) show ?case
    by (rule hears_frame) (use select_joined(2,3) join_task in auto)
next
  case (scan_sends s h event)
  then have "heard (s\<lparr>events_sent := events_sent s @ [event]\<rparr>) = heard s"
    by (simp add: hears_ok_def channel_ok_def heard_def)
  with scan_sends show ?case by (auto simp: hears_ok_def channel_ok_def scanned_ok_def)
next
  case (scan_ends s h t)
  then show ?case by (auto simp: hears_ok_def channel_ok_def scanned_ok_def heard_def)
next
  case (watcher_drops s l)
  then show ?case by (auto simp: hears_ok_def channel_ok_def scanned_ok_def heard_def)
next
  case (subscriber_receives s w l over w')
  then have "AwaitSubscriber \<notin> set (executed s)" by (auto simp: program_ok_def wallet_ok_def)
  from hears_next [OF subscriber_receives(6,1-4) this] show ?case .
next
  case (subscriber_ends s)
  then have "AwaitSubscriber \<notin> set (executed s)" by (auto simp: program_ok_def wallet_ok_def)
  with subscriber_ends show ?case by (auto simp: hears_ok_def channel_ok_def scanned_ok_def heard_def)
next
  case (subscriber_panics s)
  then have "AwaitSubscriber \<notin> set (executed s)" by (auto simp: program_ok_def wallet_ok_def)
  with subscriber_panics show ?case by (auto simp: hears_ok_def channel_ok_def scanned_ok_def heard_def)
qed (erule hears_frame; simp add: panics_def)+

lemma running_hears: "running_program su oc main s \<Longrightarrow> hears_ok s"
proof (induction rule: running_program.induct)
  case (starts s)
  then show ?case by (simp add: hears_ok_def channel_ok_def scanned_ok_def)
next
  case (runs_on s t)
  from hears_step [OF runs_on(2) running_ok [OF runs_on(1)] runs_on(3)] show ?case .
qed

text \<open>Both invariants of a program.\<close>

definition sound :: "bool \<Rightarrow> ('n, 'r, 'w, 'x, 'f, 'v, 't, 'c) program \<Rightarrow> bool" where
  "sound oc s \<longleftrightarrow> program_ok oc s \<and> hears_ok s"

lemma running_sound: "running_program su oc main s \<Longrightarrow> sound oc s"
  using running_ok running_hears by (simp add: sound_def)

lemma sound_step: "program_step su oc s t \<Longrightarrow> sound oc s \<Longrightarrow> sound oc t"
  using program_step_ok hears_step by (simp add: sound_def)

lemma sound_steps: "rtranclp (program_step su oc) s t \<Longrightarrow> sound oc s \<Longrightarrow> sound oc t"
  by (induction rule: rtranclp_induct) (auto intro: sound_step)

text \<open>
  A program that returns \<open>Ok\<close> past its subscriber has applied every update sent before the first
  failure to the wallet it created, and the balance it prints last is that wallet's.
\<close>

lemma wallet_at_end:
  assumes "running_program su oc main s" and "ended s = Some (Returned (Inr ()))"
    and "\<And>t. t \<in> set (traces main) \<Longrightarrow> t = executed s \<Longrightarrow> {AwaitSubscriber, PrintBalance ''POST''} \<subseteq> set t"
  shows "\<exists>w0 w. do_create su = Some w0 \<and> wallet s = Some w \<and>
    w = apply_all (api su) (updates_of (takeWhile goes_on (events_sent s))) w0 \<and>
    (INFO, balance_line (api su) ''POST'' w) \<in> set (lines_out s)"
proof -
  note ok = running_ok [OF assms(1)] and hears = running_hears [OF assms(1)]
  from ok assms(2) have "executed s \<in> set (traces main)" by (simp add: program_ok_def outcome_ok_def)
  from assms(3) [OF this refl] have "AwaitSubscriber \<in> set (executed s)" "PrintBalance ''POST'' \<in> set (executed s)" by auto
  with assms(2) hears have sub: "subscriber s = SubscriberEnded (Inr ())"
    and "\<exists>w. wallet s = Some w \<and> (INFO, balance_line (api su) ''POST'' w) \<in> set (lines_out s)"
    and made: "wallet s \<noteq> None \<longrightarrow> wallet s = wallet_after su (heard s)"
    unfolding hears_ok_def scanned_ok_def by simp_all
  then obtain w where w: "wallet s = Some w" "(INFO, balance_line (api su) ''POST'' w) \<in> set (lines_out s)"
    "wallet_after su (heard s) = Some w" by auto
  have "updates_of (heard s) = updates_of (takeWhile goes_on (events_sent s))"
  proof -
    from hears sub consider (Failed) "stopped_by_error (heard s)" | (All) "heard s = events_sent s" "list_all goes_on (heard s)"
      by (auto simp: hears_ok_def channel_ok_def)
    then show ?thesis
    proof cases
      case Failed
      then obtain es e where es: "heard s = es @ [ScanError e]" "list_all goes_on es" by (auto simp: stopped_by_error_def)
      have "events_sent s = heard s @ drop (events_read s) (events_sent s)" by (simp add: heard_def)
      with es have "takeWhile goes_on (events_sent s) = es" by (metis takeWhile_failed)
      with es(1) show ?thesis by simp
    next
      case All
      then show ?thesis using updates_before_failure(1) [of "events_sent s"] by simp
    qed
  qed
  with w show ?thesis by (auto simp: wallet_after_def)
qed

end

end
