(* ===== verification/ProgramProgress.thy ===== *)
theory ProgramProgress
  imports ProgramWallet
begin

text \<open>
  How the example programs get on: no statement waits for ever, a program whose fallible calls
  succeed can always be brought to its end, and it can get past its statements with a node that is
  running and that nobody has told to stop.
\<close>

section \<open>What a waiting statement waits for\<close>

fun run_rank :: "'x run_pc \<Rightarrow> nat" where
  "run_rank RunIdle = 0" | "run_rank RunSetStarted = 6" | "run_rank RunSpawnNode = 5"
| "run_rank RunSpawnUpdate = 4" | "run_rank RunSpawnShutdown = 3" | "run_rank RunStoreTask = 2"
| "run_rank RunSetActive = 1" | "run_rank (RunReturned _) = 0"

lemma run_step_rank:
  assumes "run_at l \<noteq> RunIdle" and "\<not> run_done (run_at l)"
  obtains l' where "run_step now l = Some l'" and "run_rank (run_at l') < run_rank (run_at l)" and "run_at l' \<noteq> RunIdle"
  using assms by (cases "run_at l"; cases "started_at l") (auto simp: run_return_def)

definition calm :: "('n, 'r, 'w, 'x, 'f, 'v, 't, 'c) program \<Rightarrow> bool" where
  "calm s \<longleftrightarrow> (\<forall>l. node_life s = Some l \<longrightarrow> calm_node l)"

lemma run_finishes:
  "run_at l \<noteq> RunIdle \<Longrightarrow> lifecycle_inv l \<Longrightarrow>
    \<exists>l'. rtranclp (task_step oc) l l' \<and> run_done (run_at l') \<and> (calm_node l \<longrightarrow> calm_node l')"
proof (induction "run_rank (run_at l)" arbitrary: l rule: less_induct)
  case less
  show ?case
  proof (cases "run_done (run_at l)")
    case False
    from run_step_rank [OF less.prems(1) False] obtain l' where s: "run_step 0 l = Some l'"
      and l': "run_rank (run_at l') < run_rank (run_at l)" "run_at l' \<noteq> RunIdle" by blast
    have "lifecycle_inv l'" by (rule step_inv [OF step.run_goes_on [OF s] less.prems(2)])
    with less.hyps [OF l'] obtain u where "rtranclp (task_step oc) l' u" "run_done (run_at u)"
      "calm_node l' \<longrightarrow> calm_node u" by blast
    with task_step.run_goes_on [OF s] calm_run_step [OF s less.prems(2)] show ?thesis
      by (meson converse_rtranclp_into_rtranclp)
  qed blast
qed

lemma shutdown_finishes:
  "shutdown_at l \<noteq> ShutdownNone \<Longrightarrow> cancellation_token l \<Longrightarrow>
    \<exists>l'. rtranclp (task_step oc) l l' \<and> shutdown_at l' = ShutdownDone"
proof (induction "shutdown_rank (shutdown_at l)" arbitrary: l rule: less_induct)
  case less
  consider "shutdown_at l = ShutdownDone" | (Sel) "shutdown_at l = ShutdownSelect"
    | (On) "shutdown_at l \<notin> {ShutdownNone, ShutdownSelect, ShutdownDone}" using less.prems by blast
  then show ?case
  proof cases
    case Sel
    let ?l = "l\<lparr>shutdown_at := SetKillSignal\<rparr>"
    from Sel less.prems less.hyps [of ?l] obtain u where "rtranclp (task_step oc) ?l u" "shutdown_at u = ShutdownDone"
      by auto
    with task_step.shutdown_requested [OF Sel less.prems(2)] show ?thesis by (meson converse_rtranclp_into_rtranclp)
  next
    case On
    from shutdown_step_rank [OF On] obtain l' where s: "shutdown_step l = Some l'"
      and r: "shutdown_rank (shutdown_at l) = Suc (shutdown_rank (shutdown_at l'))" "shutdown_at l' \<notin> {ShutdownNone, ShutdownSelect}"
      by metis
    from s less.prems(2) have "cancellation_token l'" by (auto split: shutdown_pc.splits)
    with r less.hyps [of l'] obtain u where "rtranclp (task_step oc) l' u" "shutdown_at u = ShutdownDone" by auto
    with task_step.shutdown_goes_on [OF s] show ?thesis by (meson converse_rtranclp_into_rtranclp)
  qed blast
qed

lemma task_steps_lift:
  "rtranclp (task_step oc) l l' \<Longrightarrow> node_life s = Some l \<Longrightarrow>
    rtranclp (program_step su oc) s (s\<lparr>node_life := Some l'\<rparr>)"
proof (induction rule: rtranclp_induct)
  case base
  then have "s\<lparr>node_life := Some l\<rparr> = s" by (cases s) simp
  then show ?case by simp
next
  case (step u v)
  from program_step.node_task [of "s\<lparr>node_life := Some u\<rparr>" u oc v su] step
  show ?case by (simp add: rtranclp.rtrancl_into_rtrancl)
qed

lemma exec_ready:
  assumes "st \<notin> {AwaitRun, AwaitScan, AwaitSubscriber, AwaitTask}" and "\<And>a other b. st \<noteq> Select a other b"
    and "BuildNode \<in> set (needs st) \<Longrightarrow> node_life s \<noteq> None"
    and "CreateWallet \<in> set (needs st) \<Longrightarrow> wallet s \<noteq> None"
    and "SpawnScan \<in> set (needs st) \<Longrightarrow> handle s \<noteq> None"
  shows "exec su st (next_stmt st rest s) \<noteq> None"
  using assms by (cases st) (auto simp: next_stmt_def split: prod.splits sum.splits option.splits)

text \<open>The fallible calls that are still to be made succeed, on the way with a SIGINT.\<close>

definition call_ok ::
  "('n, 'r, 'w, 'x, 'f, 'v, 't, 'c, 'e, 'i) program_calls \<Rightarrow> 'f process \<Rightarrow> stmt \<Rightarrow> 'f process option" where
  "call_ok su p st =
     (case st of
        InitLogger \<Rightarrow> (case do_init su p of (Inl _, _) \<Rightarrow> None | (Inr _, p') \<Rightarrow> Some p')
      | BuildNode \<Rightarrow> (case do_build su p of (Inl _, _) \<Rightarrow> None | (Inr _, p') \<Rightarrow> Some p')
      | Tool name \<Rightarrow> (case do_tool su name of Inl _ \<Rightarrow> None | Inr _ \<Rightarrow> Some p)
      | CreateWallet \<Rightarrow> if do_create su = None then None else Some p
      | _ \<Rightarrow> Some p)"

fun calls_ok ::
  "('n, 'r, 'w, 'x, 'f, 'v, 't, 'c, 'e, 'i) program_calls \<Rightarrow> 'f process \<Rightarrow> stmt list \<Rightarrow> bool" where
  "calls_ok su p [] = True"
| "calls_ok su p (st # t) = (case call_ok su p st of None \<Rightarrow> False | Some p' \<Rightarrow> calls_ok su p' t)"

definition smooth ::
  "('n, 'r, 'w, 'x, 'f, 'v, 't, 'c, 'e, 'i) program_calls \<Rightarrow> 'f process \<Rightarrow> stmt list \<Rightarrow> bool" where
  "smooth su p main = calls_ok su p (hd (traces main))"

lemma smooth_simps [simp]:
  "smooth su p (Select a other b # rest) = smooth su p (a @ rest)"
  "(\<And>a other b. st \<noteq> Select a other b) \<Longrightarrow> smooth su p (st # rest) =
     (case call_ok su p st of None \<Rightarrow> False | Some p' \<Rightarrow> smooth su p' rest)"
  by (simp_all add: smooth_def hd_map split: option.split)

lemma exec_call_ok:
  assumes "exec su st (next_stmt st rest s) = Some t" and "call_ok su (process s) st = Some p'"
    and "st \<notin> {CallRun, AwaitRun, NewClient, UnwrapWallet, AwaitSubscriber, ReturnOk}"
  shows "process t = p' \<and> ended t = ended s \<and> todo t = rest \<and> events_sent t = events_sent s \<and>
    subscriber t \<in> {subscriber s, Listening}"
  using assms
  by (cases st) (auto simp: call_ok_def next_stmt_def prints_line_def split: prod.splits sum.splits option.splits if_splits)

lemma exec_special:
  assumes "exec su st (next_stmt st rest s) = Some t" and "st \<in> {CallRun, AwaitRun, NewClient, AwaitSubscriber, UnwrapWallet}"
    and "\<And>e. ended t = Some (Returned (Inl e)) \<Longrightarrow> can_fail su e" and "subscriber s \<noteq> SubscriberEnded (Inl ())"
    and "st = UnwrapWallet \<Longrightarrow> wallet_refs s = 1" and "ended s = None"
  shows "process t = process s \<and> ended t = None \<and> todo t = rest \<and> events_sent t = events_sent s \<and> subscriber t = subscriber s"
proof -
  from assms(2) consider "st = CallRun" | "st = AwaitRun" | "st = NewClient" | "st = AwaitSubscriber" | "st = UnwrapWallet"
    by blast
  then show ?thesis
    by cases (use assms in \<open>auto simp: next_stmt_def fails_def can_fail_def
      split: sum.splits option.splits if_splits run_pc.splits subscriber_task.splits\<close>)
qed

lemma running_steps:
  "rtranclp (program_step su oc) s t \<Longrightarrow> running_program su oc main s \<Longrightarrow> running_program su oc main t"
  by (induction rule: rtranclp_induct) (auto intro: running_program.runs_on)

text \<open>A subscriber whose sender is gone reads what is left, and ends.\<close>

lemma subscriber_drains:
  assumes "subscriber s = Listening" and "wallet s = Some w" and "event_sender s = SenderDropped"
    and "events_read s \<le> length (events_sent s)"
  shows "\<exists>u. rtranclp (program_step su oc) s u \<and> subscriber u = SubscriberEnded (Inr ()) \<and> todo u = todo s \<and>
    process u = process s \<and> ended u = ended s \<and> executed u = executed s \<and> mining u = mining s \<and>
    node_life u = node_life s \<and> events_sent u = events_sent s \<and> handle u = handle s \<and> event_sender u = event_sender s"
  using assms
proof (induction "length (events_sent s) - events_read s" arbitrary: s w)
  case 0
  then have "events_read s = length (events_sent s)" by simp
  from program_step.subscriber_ends [OF 0(2,4) this, of su oc] show ?case
    by (intro exI [of _ "s\<lparr>subscriber := SubscriberEnded (Inr ()), wallet_refs := wallet_refs s - 1\<rparr>"]) auto
next
  case (Suc k)
  then have less: "events_read s < length (events_sent s)" by simp
  obtain l over w' where ev: "on_scan_event (api su) (events_sent s ! events_read s) w = (l, over, w')" by (metis prod_cases3)
  from program_step.subscriber_receives [OF Suc(3,4) less ev, of oc]
  obtain u where u: "program_step su oc s u" and eq: "u = s\<lparr>wallet := Some w', lines_out := lines_out s @ l,
      events_read := Suc (events_read s), subscriber := (if over then SubscriberEnded (Inr ()) else Listening),
      wallet_refs := (if over then wallet_refs s - 1 else wallet_refs s)\<rparr>" by blast
  show ?case
  proof (cases over)
    case True
    with u eq show ?thesis by (intro exI [of _ u]) auto
  next
    case False
    have "k = length (events_sent u) - events_read u" using Suc(2) by (simp add: eq)
    moreover have "subscriber u = Listening" "wallet u = Some w'" "event_sender u = SenderDropped"
      "events_read u \<le> length (events_sent u)" using False Suc(5) less by (simp_all add: eq)
    ultimately obtain v where "rtranclp (program_step su oc) u v" and v: "subscriber v = SubscriberEnded (Inr ())"
      "todo v = todo u" "process v = process u" "ended v = ended u" "executed v = executed u" "mining v = mining u"
      "node_life v = node_life u" "events_sent v = events_sent u" "handle v = handle u" "event_sender v = event_sender u"
      using Suc(1) by metis
    with u have st: "rtranclp (program_step su oc) s v" by (meson converse_rtranclp_into_rtranclp)
    show ?thesis by (rule exI [of _ v]) (use st v eq in simp)
  qed
qed

text \<open>Before \<open>main\<close> waits for the scan, the scan can go on and its sender is held.\<close>

definition scanning :: "('n, 'r, 'w, 'x, 'f, 'v, 't, 'c) program \<Rightarrow> bool" where
  "scanning s \<longleftrightarrow> (SpawnScan \<in> set (executed s) \<longrightarrow> (\<exists>h. handle s = Some h \<and> task h = Running)) \<and>
     (NewClient \<in> set (executed s) \<longrightarrow> event_sender s = SenderHeld)"

lemma exec_scanning:
  assumes "exec su st (next_stmt st rest s) = Some t" and "ended t = None" and "scanning s"
  shows "scanning t"
proof -
  have ex: "executed t = executed s @ [st]" using exec_lines [OF assms(1)] by simp
  consider "st = NewClient" | "st = SpawnScan" | "st = StopScan" | "st = CreateWallet" | "st = SpawnSubscriber"
    | (Else) "st \<notin> {CreateWallet, NewClient, SpawnSubscriber, SpawnScan, StopScan}" by blast
  then show ?thesis
  proof cases
    case 1
    with assms have "handle t = handle s" "event_sender t = SenderHeld"
      by (auto simp: next_stmt_def fails_def split: option.splits sum.splits)
    with 1 assms(3) ex show ?thesis by (simp add: scanning_def)
  next
    case 2
    with assms have "handle t = Some (new_handle False Running)" "event_sender t = event_sender s"
      by (auto simp: next_stmt_def)
    with 2 assms(3) ex show ?thesis by (simp add: scanning_def new_handle_def)
  next
    case 3
    with assms(1) obtain h where "handle s = Some h" "handle t = Some (snd (stop h))" "event_sender t = event_sender s"
      by (auto simp: next_stmt_def split: option.splits)
    with 3 assms(3) ex show ?thesis by (simp add: scanning_def stop_handle)
  next
    case 4
    with assms have "handle t = handle s" "event_sender t = event_sender s"
      by (auto simp: next_stmt_def fails_def split: option.splits)
    with 4 assms(3) ex show ?thesis by (simp add: scanning_def)
  next
    case 5
    with assms have "handle t = handle s" "event_sender t = event_sender s" by (auto simp: next_stmt_def)
    with 5 assms(3) ex show ?thesis by (simp add: scanning_def)
  next
    case Else
    with exec_elsewhere [OF assms(1) Else] assms(3) show ?thesis by (auto simp: scanning_def)
  qed
qed

text \<open>As long as it does, the scan can send.\<close>

lemma scan_sends_all:
  assumes "handle s = Some h" and "task h = Running" and "event_sender s = SenderHeld"
  shows "rtranclp (program_step su oc) s (s\<lparr>events_sent := events_sent s @ es\<rparr>)"
proof (induction es rule: rev_induct)
  case Nil
  have "s\<lparr>events_sent := events_sent s\<rparr> = s" by (cases s) simp
  then show ?case by simp
next
  case (snoc e es)
  from program_step.scan_sends [of "s\<lparr>events_sent := events_sent s @ es\<rparr>" h su oc e] assms
  have "program_step su oc (s\<lparr>events_sent := events_sent s @ es\<rparr>) (s\<lparr>events_sent := events_sent s @ es @ [e]\<rparr>)" by simp
  with snoc show ?case by (rule rtranclp.rtrancl_into_rtrancl)
qed

section \<open>In every program that keeps the contract\<close>

context program_contract
begin

text \<open>
  No statement waits for ever: some steps of the other tasks bring it to its end, or a SIGINT.
\<close>

lemma stmt_ready:
  assumes "sound oc s" and "ended s = None" and "todo s = st # rest" and "\<And>a other b. st \<noteq> Select a other b"
  shows "\<exists>u. rtranclp (program_step su oc) s u \<and> todo u = todo s \<and> exec su st (next_stmt st rest u) \<noteq> None \<and>
    process u = process s \<and> ended u = ended s \<and> executed u = executed s \<and> mining u = mining s \<and>
    events_sent u = events_sent s \<and> (st \<noteq> AwaitTask \<longrightarrow> calm s \<longrightarrow> calm u) \<and>
    (st \<noteq> AwaitScan \<longrightarrow> handle u = handle s \<and> event_sender u = event_sender s) \<and>
    (subscriber u = subscriber s \<or> subscriber u = SubscriberEnded (Inr ()))"
proof -
  have pok: "program_ok oc s" and chan: "channel_ok s" using assms(1) by (simp_all add: sound_def hears_ok_def)
  from pok assms(2) have "on_trace main s" by (simp add: program_ok_def outcome_ok_def)
  from on_trace_next [OF order_law this assms(3,4)] obtain tr where tr: "in_order (executed s @ st # tr)" by blast
  note need = in_order_needs [OF tr]
  from pok assms(2) have node: "node_ok oc cfg s" and made: "made_ok s" and hand: "handle_ok s"
    by (simp_all add: program_ok_def)
  have now: ?thesis if "exec su st (next_stmt st rest s) \<noteq> None" using that by blast
  have here: "BuildNode \<in> set (executed s) \<Longrightarrow> node_life s \<noteq> None"
    "CreateWallet \<in> set (executed s) \<Longrightarrow> wallet s \<noteq> None" "SpawnScan \<in> set (executed s) \<Longrightarrow> handle s \<noteq> None"
    using made assms(2) by (simp_all add: made_ok_def)
  consider (Ready) "st \<notin> {AwaitRun, AwaitScan, AwaitSubscriber, AwaitTask}" | (AwaitRun) "st = AwaitRun"
    | (AwaitScan) "st = AwaitScan" | (AwaitSubscriber) "st = AwaitSubscriber" | (AwaitTask) "st = AwaitTask" by blast
  then show ?thesis
  proof cases
    case Ready
    from exec_ready [OF this assms(4) here(1) [OF need] here(2) [OF need] here(3) [OF need]] show ?thesis by (rule now)
  next
    case AwaitRun
    with need have "BuildNode \<in> set (executed s)" "CallRun \<in> set (executed s)" by simp_all
    with here(1) node obtain l where l: "node_life s = Some l" "run_at l \<noteq> RunIdle" "reachable oc l"
      by (auto simp: node_ok_def)
    from run_finishes [OF l(2) reachable_inv [OF l(3)]] obtain l' where "rtranclp (task_step oc) l l'"
      and d: "run_done (run_at l')" "calm_node l \<longrightarrow> calm_node l'" by blast
    from task_steps_lift [OF this(1) l(1)] d AwaitRun l(1) show ?thesis
      by (intro exI [of _ "s\<lparr>node_life := Some l'\<rparr>"])
        (cases "run_at l'", auto simp: next_stmt_def calm_def split: sum.splits)
  next
    case AwaitScan
    with need have "SpawnScan \<in> set (executed s)" by simp
    with here(3) obtain h where h: "handle s = Some h" by auto
    show ?thesis
    proof (cases "task h = Running")
      case True
      from program_step.scan_ends [OF h True, of Failed] AwaitScan h show ?thesis
        by (intro exI [of _ "s\<lparr>handle := Some (h\<lparr>task := Failed\<rparr>), event_sender := SenderDropped\<rparr>"]) (auto simp: next_stmt_def calm_def)
    qed (use AwaitScan h now in \<open>simp add: next_stmt_def\<close>)
  next
    case AwaitSubscriber
    with need have "SpawnSubscriber \<in> set (executed s)" "AwaitScan \<in> set (executed s)" "CreateWallet \<in> set (executed s)"
      by simp_all
    with made hand assms(2) obtain w where sub: "subscriber s \<noteq> NotSpawned" and over: "scan_over s" and w: "wallet s = Some w"
      by (auto simp: made_ok_def handle_ok_def)
    show ?thesis
    proof (cases "subscriber s")
      case Listening
      have "event_sender s = SenderDropped" "events_read s \<le> length (events_sent s)"
        using chan over by (auto simp: channel_ok_def scan_over_def)
      from subscriber_drains [OF Listening w this, of su oc] obtain u where "rtranclp (program_step su oc) s u"
        "subscriber u = SubscriberEnded (Inr ())" "todo u = todo s" "process u = process s" "ended u = ended s"
        "executed u = executed s" "mining u = mining s" "node_life u = node_life s" "events_sent u = events_sent s"
        "handle u = handle s" "event_sender u = event_sender s" by blast
      with AwaitSubscriber show ?thesis by (intro exI [of _ u]) (simp add: next_stmt_def calm_def)
    next
      case (SubscriberEnded r)
      with AwaitSubscriber now show ?thesis by (cases r) (simp_all add: next_stmt_def)
    qed (use sub in simp)
  next
    case AwaitTask
    with need have "AwaitRun \<in> set (executed s)" "CancelNode \<in> set (executed s)" by simp_all
    with node obtain l where l: "node_life s = Some l" "run_done (run_at l)" "cancellation_token l" "reachable oc l"
      by (cases "node_life s") (auto simp: node_ok_def)
    from reachable_inv [OF l(4)] l(2) have "shutdown_at l \<noteq> ShutdownNone"
      by (cases "run_at l") (auto simp: lifecycle_inv_def run_inv_def)
    from shutdown_finishes [OF this l(3)] obtain l' where "rtranclp (task_step oc) l l'" "shutdown_at l' = ShutdownDone" by blast
    from task_steps_lift [OF this(1) l(1)] this(2) AwaitTask show ?thesis
      by (intro exI [of _ "s\<lparr>node_life := Some l'\<rparr>"]) (auto simp: next_stmt_def)
  qed
qed

text \<open>With fallible calls that succeed and a subscriber that did not panic, every statement does.\<close>

lemma unwrap_single:
  assumes "program_ok oc s" and "ended s = None" and "todo s = UnwrapWallet # rest"
  shows "wallet_refs s = 1"
proof -
  from assms(1,2) have "on_trace main s" and wal: "wallet_ok s" by (simp_all add: program_ok_def outcome_ok_def)
  from on_trace_next [OF order_law this(1) assms(3)] obtain tr where tr: "in_order (executed s @ UnwrapWallet # tr)" by blast
  from in_order_before [OF tr] have "UnwrapWallet \<notin> set (executed s)" by force
  with in_order_needs [OF tr] wal show ?thesis by (force simp: wallet_ok_def)
qed

lemma exec_succeeds:
  assumes "sound oc s" and "ended s = None" and "todo s = st # rest" and "exec su st (next_stmt st rest s) = Some t"
    and "smooth su (process s) (st # rest)" and "subscriber s \<noteq> SubscriberEnded (Inl ())"
  shows "sound oc t \<and> events_sent t = events_sent s \<and> (st = ReturnOk \<and> ended t = Some (Returned (Inr ())) \<or>
    ended t = None \<and> todo t = rest \<and> smooth su (process t) rest \<and> subscriber t \<noteq> SubscriberEnded (Inl ()))"
proof -
  from sound_step [OF program_step.main_step [OF assms(3,4)] assms(1)] have ok: "sound oc t" .
  then have fail: "\<And>e. ended t = Some (Returned (Inl e)) \<Longrightarrow> can_fail su e"
    by (simp add: sound_def program_ok_def outcome_ok_def)
  have pok: "program_ok oc s" using assms(1) by (simp add: sound_def)
  have "\<And>a other b. st \<noteq> Select a other b" using assms(4) by auto
  with assms(5) obtain p' where p': "call_ok su (process s) st = Some p'" "smooth su p' rest"
    by (auto split: option.splits)
  consider (Ret) "st = ReturnOk" | (Special) "st \<in> {CallRun, AwaitRun, NewClient, AwaitSubscriber, UnwrapWallet}"
    | (Plain) "st \<notin> {CallRun, AwaitRun, NewClient, UnwrapWallet, AwaitSubscriber, ReturnOk}" by blast
  then show ?thesis
  proof cases
    case Ret
    with assms(4) ok show ?thesis by (auto simp: next_stmt_def)
  next
    case Special
    then have "p' = process s" using p'(1) by (auto simp: call_ok_def)
    with exec_special [OF assms(4) Special fail assms(6) _ assms(2)] unwrap_single [OF pok assms(2)] assms(3,6) p'(2) ok
    show ?thesis by auto
  next
    case Plain
    with exec_call_ok [OF assms(4) p'(1) Plain] p'(2) assms(2,6) ok show ?thesis by auto
  qed
qed

lemma todo_not_Nil:
  assumes "program_ok oc s" and "ended s = None"
  shows "todo s \<noteq> []"
proof
  assume "todo s = []"
  with assms have "executed s \<in> set (traces main)" by (simp add: program_ok_def outcome_ok_def on_trace_def)
  with order_law have "executed s \<noteq> []" "last (executed s) = ReturnOk"
    by (simp_all add: main_ok_def list_all_iff in_order_def)
  then have "ReturnOk \<in> set (executed s)" by (metis last_in_set)
  with assms show False by (simp add: program_ok_def made_ok_def)
qed

text \<open>A program can be brought to its end on the way with a SIGINT, the first of its traces.\<close>

lemma can_end:
  assumes "sound oc s" and "ended s = None" and "smooth su (process s) (todo s)"
    and "subscriber s \<noteq> SubscriberEnded (Inl ())"
  shows "\<exists>t. rtranclp (program_step su oc) s t \<and> ended t = Some (Returned (Inr ())) \<and>
    executed t = executed s @ hd (traces (todo s)) \<and> events_sent t = events_sent s"
  using assms
proof (induction "size_list size (todo s)" arbitrary: s rule: less_induct)
  case less
  then have pok: "program_ok oc s" by (simp add: sound_def)
  obtain st rest where td: "todo s = st # rest" using todo_not_Nil [OF pok less.prems(2)] by (cases "todo s") auto
  show ?case
  proof (cases "\<exists>a other b. st = Select a other b")
    case True
    then obtain a other b where sel: "todo s = Select a other b # rest" using td by blast
    let ?s = "s\<lparr>todo := a @ rest\<rparr>"
    note st = program_step.select_sigint [OF sel, of su oc]
    from less.hyps [of ?s] sel less.prems sound_step [OF st less.prems(1)] obtain t where
      "rtranclp (program_step su oc) ?s t" "ended t = Some (Returned (Inr ()))"
      "executed t = executed s @ hd (traces (todo s))" "events_sent t = events_sent s" by auto
    with st show ?thesis by (meson converse_rtranclp_into_rtranclp)
  next
    case False
    then have sel: "\<And>a other b. st \<noteq> Select a other b" by blast
    from stmt_ready [OF less.prems(1,2) td sel] obtain u t where u: "rtranclp (program_step su oc) s u" "todo u = st # rest"
      "process u = process s" "ended u = None" "subscriber u \<noteq> SubscriberEnded (Inl ())" "executed u = executed s"
      and snt: "events_sent u = events_sent s" and t: "exec su st (next_stmt st rest u) = Some t"
      using td less.prems(2,4) by (metis not_Some_eq sum.distinct(1) subscriber_task.inject)
    have st: "rtranclp (program_step su oc) s t"
      using u(1) program_step.main_step [OF u(2) t, of oc] by simp
    have hd: "hd (traces (todo s)) = st # hd (traces rest)" using td sel by (simp add: hd_map)
    have "smooth su (process u) (st # rest)" using less.prems(3) td u(3) by simp
    from exec_succeeds [OF sound_steps [OF u(1) less.prems(1)] u(4,2) t this u(5)] have ok: "sound oc t"
      and sent_t: "events_sent t = events_sent u"
      and "st = ReturnOk \<and> ended t = Some (Returned (Inr ())) \<or> ended t = None \<and> todo t = rest \<and>
        smooth su (process t) rest \<and> subscriber t \<noteq> SubscriberEnded (Inl ())" by blast+
    then consider (Ret) "st = ReturnOk" "ended t = Some (Returned (Inr ()))"
      | (On) "ended t = None" "todo t = rest" "smooth su (process t) (todo t)" "subscriber t \<noteq> SubscriberEnded (Inl ())"
      by auto
    then show ?thesis
    proof cases
      case Ret
      have "on_trace main s" using pok less.prems(2) by (simp add: program_ok_def outcome_ok_def)
      then have "executed s @ hd (traces (todo s)) \<in> set (traces main)" by (simp add: on_trace_def)
      with order_law Ret hd in_order_end [of "executed s" "hd (traces rest)"] have "hd (traces rest) = []"
        by (auto simp: main_ok_def list_all_iff)
      with Ret t u(6) hd st snt sent_t show ?thesis by (intro exI [of _ t]) (auto simp: next_stmt_def)
    next
      case On
      from exec_frame [OF t On(1)] u(6) have ex: "executed t = executed s @ [st]" by simp
      from less.hyps [of t, OF _ ok On(1,3,4)] On(2) td obtain v where
        "rtranclp (program_step su oc) t v" "ended v = Some (Returned (Inr ()))" "executed v = executed t @ hd (traces rest)"
        "events_sent v = events_sent t" by auto
      with rtranclp_trans [OF st] ex hd snt sent_t show ?thesis by auto
    qed
  qed
qed

text \<open>The same, without a shutdown: past the statements before the \<open>select!\<close>, on a calm node.\<close>

lemma exec_calm:
  assumes "exec su st (next_stmt st rest s) = Some t" and "calm s" and "st \<noteq> CancelNode"
  shows "calm t \<and> mining t = mining s"
proof -
  have "calm_node (start_sys n :: ('n, 'r, 'w, 'x) sys)" if "do_build su p = (Inr n, p')" for n p p'
    using build_law [OF that] by (simp add: calm_built)
  with assms show ?thesis
    by (cases st) (auto simp: calm_def next_stmt_def fails_def panics_def prints_line_def calm_calls
      split: prod.splits sum.splits option.splits if_splits run_pc.splits subscriber_task.splits)
qed

lemma gets_past:
  assumes "sound oc s" and "ended s = None" and "todo s = xs @ rest" and "smooth su (process s) (todo s)"
    and "subscriber s \<noteq> SubscriberEnded (Inl ())" and "calm s" and "scanning s"
    and "\<forall>st \<in> set xs. st \<notin> {CancelNode, AwaitTask, AwaitScan, ReturnOk} \<and> (\<forall>a other b. st \<noteq> Select a other b)"
  shows "\<exists>t. rtranclp (program_step su oc) s t \<and> ended t = None \<and> todo t = rest \<and> calm t \<and> mining t = mining s \<and>
    sound oc t \<and> scanning t \<and> smooth su (process t) rest \<and> subscriber t \<noteq> SubscriberEnded (Inl ()) \<and>
    executed t = executed s @ xs \<and> events_sent t = events_sent s"
  using assms
proof (induction xs arbitrary: s)
  case Nil
  then show ?case by (intro exI [of _ s]) simp
next
  case (Cons st xs)
  then have td: "todo s = st # xs @ rest" and sel: "\<And>a other b. st \<noteq> Select a other b"
    and st: "st \<noteq> CancelNode" "st \<noteq> AwaitTask" "st \<noteq> AwaitScan" "st \<noteq> ReturnOk" by auto
  from stmt_ready [OF Cons.prems(1,2) td sel] st(2,3) Cons.prems(6) obtain u where u: "rtranclp (program_step su oc) s u"
    "todo u = todo s" "process u = process s" "ended u = ended s" "calm u" "mining u = mining s" "executed u = executed s"
    "events_sent u = events_sent s" "handle u = handle s" "event_sender u = event_sender s"
    and sub: "subscriber u = subscriber s \<or> subscriber u = SubscriberEnded (Inr ())"
    and x: "exec su st (next_stmt st (xs @ rest) u) \<noteq> None" by metis
  from x obtain t where t: "exec su st (next_stmt st (xs @ rest) u) = Some t" by blast
  have sub_u: "subscriber u \<noteq> SubscriberEnded (Inl ())" using sub Cons.prems(5) by auto
  have s: "rtranclp (program_step su oc) s t"
    using u(1) program_step.main_step [of u st "xs @ rest" su t oc] t u(2) td by simp
  have "smooth su (process u) (st # xs @ rest)" using Cons.prems(4) td u(3) by simp
  from exec_succeeds [OF sound_steps [OF u(1) Cons.prems(1)] _ _ t this sub_u] st(4) u(2,4) td Cons.prems(2)
  have t': "sound oc t" "ended t = None" "todo t = xs @ rest" "smooth su (process t) (todo t)"
    "subscriber t \<noteq> SubscriberEnded (Inl ())" "events_sent t = events_sent s" by (auto simp: u(8))
  from exec_calm [OF t u(5) st(1)] u(6) have calm: "calm t" "mining t = mining s" by simp_all
  have "scanning u" using Cons.prems(7) u(7,9,10) by (simp add: scanning_def)
  from exec_scanning [OF t t'(2) this] have "scanning t" .
  moreover have "executed t = executed s @ [st]" using exec_lines [OF t] u(7) by simp
  ultimately show ?case
    using Cons.IH [OF t'(1-5) calm(1)] Cons.prems(8) calm(2) t'(6) rtranclp_trans [OF s] by fastforce
qed

end

section \<open>A concrete process\<close>

definition sample_maker :: "(nat, u32, u32, u32) wallet_maker" where
  "sample_maker = \<lparr>create_wallet = (\<lambda>_ _ _. Some 5), tip_of = id, index_of = (\<lambda>_. 1), reveal = (\<lambda>_ w. (''addr'', w)),
     tip_text = (\<lambda>c. (display_word c, ''aa''))\<rparr>"

definition fresh_program :: "'f process \<Rightarrow> stmt list \<Rightarrow> ('n, 'r, 'w, 'x, 'f, 'v, 't, 'c) program" where
  "fresh_program p main = \<lparr>process = p, node_life = None, wallet = None, wallet_refs = 0, handle = None,
     subscriber = NotSpawned, event_sender = NoSender, events_sent = [], events_read = 0, printers = 0,
     mining = MiningWaits, took_task = False, lines_out = [], todo = main, ended = None,
     executed = [], early_shutdown = False\<rparr>"

lemma fresh_program_runs: "running_program su oc main (fresh_program p main)"
  by (rule running_program.starts) (simp_all add: fresh_program_def)

end
