(* ===== verification/ClientSignet.thy ===== *)
theory ClientSignet
  imports ProgramProgress
begin

text \<open>
  The example \<open>src/examples/client_signet.rs\<close>: its constants, its configuration and its \<open>main\<close>,
  and what it leaves behind, in every interleaving with the tasks it spawns.
\<close>

definition DATA_DIR :: string where
  "DATA_DIR = ''./examples/data/client_signet/''"

definition DESC_EXT :: string where
  "DESC_EXT = ''wpkh([9cee26c8/84h/1h/0h]tpubDDuCfGKBYo4pQjNcpVkdLktdYm9wZiowEXMKM4Nn9QBcbnu5ikxmqZyXuhDgcdfr8zcuR66iLCmManN9XguSpP2m2SZyUsJsdCKQkcru6VG/0/*)''"

definition DESC_INT :: string where
  "DESC_INT = ''wpkh([9cee26c8/84h/1h/0h]tpubDDuCfGKBYo4pQjNcpVkdLktdYm9wZiowEXMKM4Nn9QBcbnu5ikxmqZyXuhDgcdfr8zcuR66iLCmManN9XguSpP2m2SZyUsJsdCKQkcru6VG/1/*)''"

definition signet_logger :: Logger where
  "signet_logger = \<lparr>log_level = INFO, log_to_stdout = True,
     log_file = Some (path_join DATA_DIR ''client_signet.log'')\<rparr>"

text \<open>The default configuration is an argument, since it depends on the library's networks.\<close>

definition signet_config :: "'n \<Rightarrow> ('n, 'r) NodeConfig \<Rightarrow> ('n, 'r) NodeConfig" where
  "signet_config signet default_config =
     default_config\<lparr>network := signet, datadir := path_join DATA_DIR ''bdk_floresta''\<rparr>"

definition signet_main :: "stmt list" where
  "signet_main =
     [InitLogger,
      BuildNode, CallRun, AwaitRun,
      SpawnStatePrinter, SpawnActionPrinter,
      CreateWallet,
      NewClient,
      PrintBalance ''PRE'',
      SpawnSubscriber,
      PrintCheckpoint,
      SpawnScan,
      Select [Print ''> RECEIVED `SIGINT`''] JoinScan [],
      StopScan, AwaitScan,
      AwaitSubscriber,
      UnwrapWallet,
      PrintBalance ''POST'',
      CancelNode, TakeTask, AwaitTask,
      ReturnOk]"

definition signet_calls ::
  "bool \<Rightarrow> ('f, 'x, 'n, 'r, 'u, 's, 'vm, 'cs, 'k, 'm, 'a, 'inner) builder_lib \<Rightarrow> ('f, 'x) os \<Rightarrow> bool \<Rightarrow>
   'n \<Rightarrow> ('n, 'r) NodeConfig \<Rightarrow> ('b, 'c, 'g, 'd, 't) wallet_lib \<Rightarrow> ('n, 'v, 'c, 'd) wallet_maker \<Rightarrow>
   (('x, 'n) ClientError \<Rightarrow> string) \<Rightarrow> ('v, 't, 'c, 'e, 'i) wallet_api \<Rightarrow>
   ('n, 'r, 'cs \<times> 'k \<times> 'inner, 'x, 'f, 'v, 't, 'c, 'e, 'i) program_calls" where
  "signet_calls oc lib os tty signet default_config wl wm err_text wapi =
     example_calls oc lib os tty ''client_signet=info'' signet_logger (signet_config signet default_config)
       wl wm (create_wallet wm DESC_EXT DESC_INT signet) (\<lambda>_. Inr ()) (\<lambda>_. Some (Inr ())) err_text wapi"

lemma signet_traces:
  "traces signet_main = [
     [InitLogger, BuildNode, CallRun, AwaitRun, SpawnStatePrinter, SpawnActionPrinter, CreateWallet, NewClient,
      PrintBalance ''PRE'', SpawnSubscriber, PrintCheckpoint, SpawnScan, Print ''> RECEIVED `SIGINT`'', StopScan,
      AwaitScan, AwaitSubscriber, UnwrapWallet, PrintBalance ''POST'', CancelNode, TakeTask, AwaitTask, ReturnOk],
     [InitLogger, BuildNode, CallRun, AwaitRun, SpawnStatePrinter, SpawnActionPrinter, CreateWallet, NewClient,
      PrintBalance ''PRE'', SpawnSubscriber, PrintCheckpoint, SpawnScan, StopScan,
      AwaitScan, AwaitSubscriber, UnwrapWallet, PrintBalance ''POST'', CancelNode, TakeTask, AwaitTask, ReturnOk]]"
  by (simp add: signet_main_def)

interpretation signet: program_contract
  "signet_calls oc lib os tty signet dc wl wm et wa" "signet_config signet dc" signet_main
  for oc lib os tty signet dc wl wm et wa
  unfolding signet_calls_def
proof (unfold_locales, goal_cases)
  case 3
  show ?case by (simp add: main_ok_def signet_traces in_order_def)
qed (rule example_build_law example_client_law, assumption)+

section \<open>What the program leaves behind\<close>

text \<open>
  C5. If the example returns \<open>Ok\<close>, then, whatever was interrupted when and however its tasks
  interleaved, the node has been shut down to the end: the chain state flushed exactly once, both
  signals set, and the state \<open>Inactive\<close> unless a SIGINT hit the node while \<open>run\<close> had not returned;
  and the scan is cancelled and over, and the subscriber has ended.
\<close>

theorem signet_ok_means_shut_down:
  assumes "running_program (signet_calls oc lib os tty signet dc wl wm et wa) oc signet_main s"
    and "ended s = Some (Returned (Inr ()))"
  shows "\<exists>l h r. node_life s = Some l \<and> shutdown_at l = ShutdownDone \<and> flushes l = 1 \<and> kill_signal l \<and>
    cancellation_token l \<and> (\<not> early_shutdown s \<longrightarrow> state l = Inactive) \<and>
    handle s = Some h \<and> token h \<and> task h \<noteq> Running \<and> subscriber s = SubscriberEnded r"
  by (rule signet.shut_down_at_end [OF assms]) (auto simp: signet_traces)

lemma default_mempool:
  "mul_arith oc (mempool_size (signet_config signet (node_config_default signet nt ua nets))) BYTES_PER_MB = Some 100000000"
  by (simp add: signet_config_def node_config_default_def mul_arith_def BYTES_PER_MB_def)



lemma signet_wallet:
  assumes "running_program (signet_calls oc lib os tty signet dc wl wm et wa) oc signet_main s"
    and "ended s = Some (Returned (Inr ()))"
  shows "\<exists>w0 w. create_wallet wm DESC_EXT DESC_INT signet = Some w0 \<and> wallet s = Some w \<and>
    w = apply_all wa (updates_of (takeWhile goes_on (events_sent s))) w0 \<and>
    (INFO, balance_line wa ''POST'' w) \<in> set (lines_out s)"
proof -
  have su: "do_create (signet_calls oc lib os tty signet dc wl wm et wa) = create_wallet wm DESC_EXT DESC_INT signet"
    "api (signet_calls oc lib os tty signet dc wl wm et wa) = wa"
    by (simp_all add: signet_calls_def example_calls_def)
  have "{AwaitSubscriber, PrintBalance ''POST''} \<subseteq> set t" if "t \<in> set (traces signet_main)" for t
    using that by (auto simp: signet_traces)
  from signet.wallet_at_end [OF assms this, unfolded su] show ?thesis .
qed

text \<open>
  C14. When the example returns \<open>Ok\<close>, in whatever order its tasks ran, the wallet is the one created
  from the two descriptors with every update that was sent before the first failure applied to it,
  in order and each once, and a balance printed at the end is that wallet's.
\<close>

theorem signet_balance_is_scanned:
  assumes "running_program (signet_calls oc lib os tty signet dc wl wm et wa) oc signet_main s"
    and "ended s = Some (Returned (Inr ()))"
  shows "\<exists>w0 w. create_wallet wm DESC_EXT DESC_INT signet = Some w0 \<and> wallet s = Some w \<and>
    w = apply_all wa (updates_of (takeWhile goes_on (events_sent s))) w0 \<and>
    (INFO, balance_line wa ''POST'' w) \<in> set (lines_out s)"
  by (rule signet_wallet [OF assms])


section \<open>A concrete process\<close>

definition sample_signet ::
  "(nat, nat, unit \<times> string \<times> nat, nat, string list, u32, BlockHash list, u32, nat, nat) program_calls" where
  "sample_signet = signet_calls True sample_builder_lib sample_quiet_os False 2
     (node_config_default 2 dec ''/ua/'' []) sample_lib sample_maker (\<lambda>_. []) sample_api"

lemma sample_calls:
  "\<exists>g p. do_init sample_signet sample_process = (Inr g, p)" "\<exists>n p'. do_build sample_signet p = (Inr n, p')"
  by (cases "parent (path_join DATA_DIR ''client_signet.log'')")
    (auto simp: sample_signet_def signet_calls_def example_calls_def logger_init_def logfile_layer_def
      signet_logger_def build_eqs signet_config_def node_config_default_def)

lemma sample_signet_smooth: "smooth sample_signet sample_process signet_main"
proof -
  obtain g p where "do_init sample_signet sample_process = (Inr g, p)" using sample_calls(1) by blast
  moreover obtain n p' where "do_build sample_signet p = (Inr n, p')" using sample_calls(2) by blast
  moreover have "do_create sample_signet = Some 5"
    by (simp add: sample_signet_def signet_calls_def example_calls_def sample_maker_def)
  ultimately show ?thesis by (simp add: smooth_def signet_traces call_ok_def)
qed

lemma sample_signet_ends:
  obtains t where "running_program sample_signet True signet_main t" and "ended t = Some (Returned (Inr ()))"
proof -
  let ?s = "fresh_program sample_process signet_main"
  have s: "running_program sample_signet True signet_main ?s" by (rule fresh_program_runs)
  have "subscriber ?s \<noteq> SubscriberEnded (Inl ())" "ended ?s = None" "process ?s = sample_process" "todo ?s = signet_main"
    by (simp_all add: fresh_program_def)
  with signet.can_end [OF signet.running_sound [OF s [unfolded sample_signet_def]]] sample_signet_smooth
  obtain t where t: "rtranclp (program_step sample_signet True) ?s t" "ended t = Some (Returned (Inr ()))"
    unfolding sample_signet_def by metis
  from that [OF running_steps [OF t(1) s] t(2)] show thesis .
qed

text \<open>Any events can be sent before the example is brought to its end.\<close>

lemma sample_signet_ends_with:
  obtains t where "running_program sample_signet True signet_main t" and "ended t = Some (Returned (Inr ()))"
    and "events_sent t = es"
proof -
  let ?before = "takeWhile (\<lambda>st. \<forall>a other b. st \<noteq> Select a other b) signet_main"
  let ?after = "dropWhile (\<lambda>st. \<forall>a other b. st \<noteq> Select a other b) signet_main"
  obtain s where s: "s = fresh_program sample_process signet_main" and run: "running_program sample_signet True signet_main s"
    using fresh_program_runs by blast
  have f: "subscriber s \<noteq> SubscriberEnded (Inl ())" "ended s = None" "calm s" "scanning s" "executed s = []"
    "todo s = ?before @ ?after" "smooth sample_signet (process s) (todo s)" "events_sent s = []"
    using sample_signet_smooth by (simp_all add: s fresh_program_def calm_def scanning_def)
  have "\<forall>st \<in> set ?before. st \<notin> {CancelNode, AwaitTask, AwaitScan, ReturnOk} \<and> (\<forall>a other b. st \<noteq> Select a other b)"
    by (simp add: signet_main_def)
  from signet.gets_past [OF signet.running_sound [OF run [unfolded sample_signet_def]] f(2,6) _ f(1,3,4) this] f(5,7,8)
  obtain t where t: "rtranclp (program_step sample_signet True) s t" "ended t = None" "scanning t" "todo t = ?after"
    "smooth sample_signet (process t) ?after" "subscriber t \<noteq> SubscriberEnded (Inl ())" "executed t = ?before" "events_sent t = []"
    unfolding sample_signet_def by auto
  from t(3,7) obtain h where h: "handle t = Some h" "task h = Running" "event_sender t = SenderHeld"
    by (auto simp: scanning_def signet_main_def)
  let ?t = "t\<lparr>events_sent := es\<rparr>"
  from scan_sends_all [OF h, of sample_signet True es] t(8)
  have sends: "rtranclp (program_step sample_signet True) t ?t" by simp
  note run_t = running_steps [OF rtranclp_trans [OF t(1) sends] run]
  from signet.can_end [OF signet.running_sound [OF run_t [unfolded sample_signet_def]]] t(2,4-6)
  obtain u where u: "rtranclp (program_step sample_signet True) ?t u" "ended u = Some (Returned (Inr ()))" "events_sent u = es"
    unfolding sample_signet_def by auto
  from that [OF running_steps [OF u(1) run_t] u(2,3)] show thesis .
qed

theorem signet_ok_means_shut_down_witness:
  "\<exists>s l. running_program sample_signet True signet_main s \<and> node_life s = Some l \<and> flushes l = 1"
proof -
  obtain t where t: "running_program sample_signet True signet_main t" "ended t = Some (Returned (Inr ()))"
    by (rule sample_signet_ends)
  from signet_ok_means_shut_down [OF t(1) [unfolded sample_signet_def] t(2)] t(1) show ?thesis by blast
qed



theorem signet_balance_is_scanned_witness:
  "\<exists>s. running_program sample_signet True signet_main s \<and> wallet s = Some 9 \<and>
     (INFO, balance_line (sample_api :: (u32, BlockHash list, u32, nat, nat) wallet_api) ''POST'' 9) \<in> set (lines_out s)"
proof -
  let ?u = "\<lambda>c. WalletUpdate \<lparr>tx_update = [], last_active_indices = (\<lambda>_. None), chain = Some c\<rparr>"
  obtain t where t: "running_program sample_signet True signet_main t" "ended t = Some (Returned (Inr ()))"
    "events_sent t = [?u 7, ?u 9, ScanError ''lost'', ?u 11]"
    by (rule sample_signet_ends_with)
  from signet_balance_is_scanned [OF t(1) [unfolded sample_signet_def] t(2)] t(1,3) show ?thesis
    by (intro exI [of _ t]) (simp add: sample_maker_def sample_api_def apply_all_def)
qed


end
