(* ===== verification/Mining.thy ===== *)
theory Mining
  imports Node Logger
begin

text \<open>
  The mining of the example \<open>src/examples/client_regtest.rs\<close>: the number of blocks from the
  environment, the address each is mined to, and the bounded wait for the node after each. The test
  framework's daemons are a world \<open>'z\<close> that its calls and the time spent asleep change.
\<close>

section \<open>The number of blocks\<close>

text \<open>\<open>str::parse::<u32>\<close>: an optional sign, then digits, without overflow.\<close>

definition parse_u32 :: "string \<Rightarrow> u32 option" where
  "parse_u32 s =
     (let ds = (case s of [] \<Rightarrow> [] | c # cs \<Rightarrow> if c = CHR ''+'' then cs else c # cs)
      in if ds \<noteq> [] \<and> list_all is_digit ds \<and> undec ds < 2 ^ 32 then Some (of_nat (undec ds)) else None)"

definition blocks_to_mine :: "string option \<Rightarrow> u32" where
  "blocks_to_mine var = unwrap_or 1000 (Option.bind var parse_u32)"

lemma parse_dec:
  "parse_u32 (dec m) = (if m < 2 ^ 32 then Some (of_nat m) else None)"
  "parse_u32 (CHR ''+'' # dec m) = (if m < 2 ^ 32 then Some (of_nat m) else None)"
proof -
  have "dec m = c # cs \<Longrightarrow> c \<noteq> CHR ''+''" for c cs
    using dec_hd_digit [of m] by (auto simp: is_digit_def)
  then have "(case dec m of [] \<Rightarrow> [] | c # cs \<Rightarrow> if c = CHR ''+'' then cs else c # cs) = dec m"
    by (simp split: list.split)
  moreover have "list_all is_digit (dec m)" by (simp add: list_all_iff dec_digits)
  ultimately show "parse_u32 (dec m) = (if m < 2 ^ 32 then Some (of_nat m) else None)"
    "parse_u32 (CHR ''+'' # dec m) = (if m < 2 ^ 32 then Some (of_nat m) else None)"
    by (simp_all add: parse_u32_def Let_def)
qed

text \<open>
  The variable \<open>BLOCKS\<close> is read back as the number it displays, with or without a plus
  sign, for every number; without the variable, with an empty one, one that is not a number, or one
  that does not fit in 32 bits, 1000 blocks are mined.
\<close>

theorem blocks_roundtrip:
  "blocks_to_mine (Some (display_word n)) = n \<and> blocks_to_mine (Some (CHR ''+'' # display_word n)) = n \<and>
   blocks_to_mine None = 1000 \<and> blocks_to_mine (Some []) = 1000 \<and> blocks_to_mine (Some ''+'') = 1000 \<and>
   blocks_to_mine (Some (dec (2 ^ 32 + k))) = 1000"
proof -
  have "unat n < 2 ^ 32" using unat_less_pow [of n] by simp
  moreover have "parse_u32 [] = None" "parse_u32 ''+'' = None" by (simp_all add: parse_u32_def Let_def)
  ultimately show ?thesis by (simp add: blocks_to_mine_def parse_dec display_word_def)
qed

section \<open>Waiting for the node\<close>

text \<open>Durations are in milliseconds.\<close>

definition WAIT_TIMEOUT :: nat where "WAIT_TIMEOUT = 10000"
definition WAIT_POLL :: nat where "WAIT_POLL = 200"

record ('z, 'n, 'r, 'w, 'x) tools =
  generate_to_address :: "string \<Rightarrow> 'z \<Rightarrow> (string + unit) \<times> 'z"
  generate_one :: "'z \<Rightarrow> (string + unit) \<times> 'z"
  get_chain_tip :: "'z \<Rightarrow> (string + u32) \<times> 'z"
  wait_for_height :: "u32 \<Rightarrow> 'z \<Rightarrow> (string + unit) \<times> 'z"
  asleep :: "nat \<Rightarrow> 'z \<Rightarrow> 'z"
  node_now :: "'z \<Rightarrow> ('n, 'r, 'w) Node"
  chain_block_hash :: "u32 \<Rightarrow> 'w \<Rightarrow> 'x + BlockHash"

definition reached :: "('z, 'n, 'r, 'w, 'x) tools \<Rightarrow> u32 \<Rightarrow> 'z \<Rightarrow> bool" where
  "reached ts target z =
     (case get_block_hash (chain_block_hash ts) target (node_now ts z) of Inl _ \<Rightarrow> False | Inr _ \<Rightarrow> True)"

definition not_reached_line :: "u32 \<Rightarrow> Level \<times> string" where
  "not_reached_line target =
     (WARN, ''> BDK_FLORESTA DID NOT REACH height='' @ display_word target @ '' within 10s'')"

function wait_block :: "('z, 'n, 'r, 'w, 'x) tools \<Rightarrow> u32 \<Rightarrow> nat \<Rightarrow> 'z \<Rightarrow> log \<times> 'z" where
  "wait_block ts target waited z =
     (if reached ts target z then ([], z)
      else if WAIT_TIMEOUT \<le> waited then ([not_reached_line target], z)
      else wait_block ts target (waited + WAIT_POLL) (asleep ts WAIT_POLL z))"
  by pat_completeness auto
termination
  by (relation "measure (\<lambda>(ts, target, waited, z). WAIT_TIMEOUT - waited)") (auto simp: WAIT_TIMEOUT_def WAIT_POLL_def)

declare wait_block.simps [simp del]

definition naps :: "('z, 'n, 'r, 'w, 'x) tools \<Rightarrow> nat \<Rightarrow> 'z \<Rightarrow> 'z" where
  "naps ts k z = (asleep ts WAIT_POLL ^^ k) z"

lemma naps_simps [simp]: "naps ts 0 z = z" "naps ts (Suc k) z = naps ts k (asleep ts WAIT_POLL z)"
  by (simp_all add: naps_def funpow_swap1)

lemma wait_block_from:
  assumes "m + j = 50" and "wait_block ts target (WAIT_POLL * m) z = (l, z')"
  shows "\<exists>k\<le>j. z' = naps ts k z \<and> (\<forall>i<k. \<not> reached ts target (naps ts i z)) \<and>
    (reached ts target z' \<and> l = [] \<or> \<not> reached ts target z' \<and> k = j \<and> l = [not_reached_line target])"
  using assms
proof (induction j arbitrary: m z)
  case 0
  then show ?case
    by (subst (asm) wait_block.simps) (auto simp: WAIT_POLL_def WAIT_TIMEOUT_def split: if_splits)
next
  case (Suc j)
  show ?case
  proof (cases "reached ts target z")
    case True
    with Suc.prems show ?thesis by (subst (asm) wait_block.simps) auto
  next
    case False
    have "\<not> WAIT_TIMEOUT \<le> WAIT_POLL * m" using Suc.prems(1) by (simp add: WAIT_POLL_def WAIT_TIMEOUT_def)
    with False Suc.prems(2) have "wait_block ts target (WAIT_POLL * Suc m) (asleep ts WAIT_POLL z) = (l, z')"
      by (subst (asm) wait_block.simps) (simp add: add.commute)
    from Suc.IH [OF _ this] Suc.prems(1) obtain k where k: "k \<le> j" "z' = naps ts (Suc k) z"
      "\<forall>i<k. \<not> reached ts target (naps ts (Suc i) z)"
      "reached ts target z' \<and> l = [] \<or> \<not> reached ts target z' \<and> k = j \<and> l = [not_reached_line target]" by auto
    then have "\<forall>i<Suc k. \<not> reached ts target (naps ts i z)"
      using False by (auto simp: less_Suc_eq_0_disj simp del: naps_simps(2))
    with k show ?thesis by (intro exI [of _ "Suc k"]) auto
  qed
qed

text \<open>
  C26. The wait for the node after each block ends: it looks at the node at most 51 times, 200
  milliseconds apart, stops at the first look at which the node has the block, and gives up with one
  warning exactly if none of them, the last one at ten seconds, finds it.
\<close>

theorem wait_block_ends:
  "\<exists>k\<le>50. snd (wait_block ts target 0 z) = naps ts k z \<and> (\<forall>i<k. \<not> reached ts target (naps ts i z)) \<and>
    (reached ts target (naps ts k z) \<and> fst (wait_block ts target 0 z) = [] \<or>
     \<not> reached ts target (naps ts k z) \<and> k = 50 \<and> fst (wait_block ts target 0 z) = [not_reached_line target])"
  using wait_block_from [of 0 50 ts target z] by (cases "wait_block ts target 0 z") auto

section \<open>Mining\<close>

datatype mined = ToExternal | ToInternal | ToAnyone

definition target_of :: "u32 \<Rightarrow> mined" where
  "target_of i = (if i mod 5 = 0 then ToExternal else if i mod 3 = 0 then ToInternal else ToAnyone)"

fun mine_line :: "string \<Rightarrow> string \<Rightarrow> mined \<Rightarrow> Level \<times> string" where
  "mine_line ext internal ToExternal = (INFO, ''> BITCOIND: MINING 1 BLOCK TO EXTERNAL ADDRESS='' @ ext)"
| "mine_line ext internal ToInternal = (INFO, ''> BITCOIND: MINING 1 BLOCK TO INTERNAL ADDRESS='' @ internal)"
| "mine_line ext internal ToAnyone = (INFO, ''> BITCOIND: MINING 1 BLOCK'')"

fun generate_block ::
  "('z, 'n, 'r, 'w, 'x) tools \<Rightarrow> string \<Rightarrow> string \<Rightarrow> mined \<Rightarrow> 'z \<Rightarrow> (string + unit) \<times> 'z" where
  "generate_block ts ext internal ToExternal z = generate_to_address ts ext z"
| "generate_block ts ext internal ToInternal z = generate_to_address ts internal z"
| "generate_block ts ext internal ToAnyone z = generate_one ts z"

text \<open>
  The rounds of the loop: how it ends (\<open>None\<close> by the panic of an \<open>unwrap\<close>), the lines logged, what
  was mined, and the world after it.
\<close>

fun mine_rounds ::
  "('z, 'n, 'r, 'w, 'x) tools \<Rightarrow> string \<Rightarrow> string \<Rightarrow> u32 list \<Rightarrow> 'z \<Rightarrow>
   (string + unit) option \<times> log \<times> mined list \<times> 'z" where
  "mine_rounds ts ext internal [] z = (Some (Inr ()), [], [], z)"
| "mine_rounds ts ext internal (i # is) z =
     (let line = mine_line ext internal (target_of i) in
      case generate_block ts ext internal (target_of i) z of
        (Inl _, z1) \<Rightarrow> (None, [line], [], z1)
      | (Inr _, z1) \<Rightarrow>
          (case get_chain_tip ts z1 of
             (Inl e, z2) \<Rightarrow> (Some (Inl e), [line], [target_of i], z2)
           | (Inr target, z2) \<Rightarrow>
               (case wait_for_height ts target z2 of
                  (Inl e, z3) \<Rightarrow> (Some (Inl e), [line], [target_of i], z3)
                | (Inr _, z3) \<Rightarrow>
                    let (l, z4) = wait_block ts target 0 z3;
                        (r, l', ms, z6) = mine_rounds ts ext internal is (asleep ts 2000 z4)
                    in (r, line # l @ l', target_of i # ms, z6))))"

definition mine_blocks ::
  "('z, 'n, 'r, 'w, 'x) tools \<Rightarrow> string \<Rightarrow> string \<Rightarrow> u32 \<Rightarrow> 'z \<Rightarrow>
   (string + unit) option \<times> log \<times> mined list \<times> 'z" where
  "mine_blocks ts ext internal blocks z = mine_rounds ts ext internal (map of_nat [0..<unat blocks]) z"

lemma mine_rounds_mined:
  "mine_rounds ts ext internal is z = (r, l, ms, z') \<Longrightarrow>
    prefix ms (map target_of is) \<and> (r = Some (Inr ()) \<longrightarrow> ms = map target_of is)"
proof (induction "is" arbitrary: z r l ms)
  case (Cons i "is")
  then show ?case by (fastforce simp: Let_def split: prod.splits sum.splits)
qed simp

text \<open>
  Mining goes through the pattern in order - every fifth block to the external address,
  every third of the others to the internal one - and if it returns \<open>Ok\<close> it has mined as many blocks as \<open>BLOCKS\<close>
  says; an error or a panic leaves the first blocks of the pattern.
\<close>

theorem mining_follows_pattern:
  assumes "mine_blocks ts ext internal blocks z = (r, l, ms, z')"
  shows "prefix ms (map (\<lambda>k. if k mod 5 = 0 then ToExternal else if k mod 3 = 0 then ToInternal else ToAnyone)
      [0..<unat blocks]) \<and> (r = Some (Inr ()) \<longrightarrow> length ms = unat blocks)"
proof -
  have "target_of (of_nat k) = (if k mod 5 = 0 then ToExternal else if k mod 3 = 0 then ToInternal else ToAnyone)"
    if "k < unat blocks" for k
  proof -
    have k: "k < 2 ^ 32" using that unat_less_pow [of blocks] by simp
    have "(of_nat k :: u32) mod of_nat d = of_nat (k mod d)" if "d < 2 ^ 32" for d
      using k that by (simp add: word_mod_def take_bit_nat_eq_self unsigned_of_nat flip: zmod_int)
    from this [of 5] this [of 3] k show ?thesis
      by (auto simp: target_of_def word_of_nat_eq_0_iff dest: nat_dvd_not_less)
  qed
  then have eq: "map target_of (map of_nat [0..<unat blocks]) =
      map (\<lambda>k. if k mod 5 = 0 then ToExternal else if k mod 3 = 0 then ToInternal else ToAnyone) [0..<unat blocks]"
    by simp
  from mine_rounds_mined [OF assms [unfolded mine_blocks_def]] show ?thesis
    unfolding eq [symmetric] by (auto simp del: map_map)
qed

definition sample_tools :: "(u32 \<times> nat, nat, nat, u32, nat) tools" where
  "sample_tools = \<lparr>generate_to_address = (\<lambda>_ (h, t). (Inr (), h + 1, t)), generate_one = (\<lambda>(h, t). (Inr (), h + 1, t)),
     get_chain_tip = (\<lambda>(h, t). (Inr h, h, t)), wait_for_height = (\<lambda>_ z. (Inr (), z)), asleep = (\<lambda>ms (h, t). (h, t + ms)),
     node_now = (\<lambda>(h, t). sample_node (if 500 \<le> t then h else 0) Operational),
     chain_block_hash = (\<lambda>h tip. if h \<le> tip then Inr 7 else Inl 0)\<rparr>"

theorem wait_block_ends_witness: "fst (wait_block sample_tools 9 0 (9, 0)) = []"
proof -
  have r: "reached sample_tools 9 (naps sample_tools 3 (9, 0))"
    by (simp add: reached_def sample_tools_def get_block_hash_def WAIT_POLL_def numeral_3_eq_3)
  from wait_block_ends [of sample_tools 9 "(9, 0)"] obtain k where
    "\<forall>i<k. \<not> reached sample_tools 9 (naps sample_tools i (9, 0))"
    "fst (wait_block sample_tools 9 0 (9, 0)) = [] \<or> k = 50" by blast
  with r show ?thesis by (cases "3 < k") auto
qed

text \<open>Daemons whose calls succeed mine every block.\<close>

definition daemons_work :: "('z, 'n, 'r, 'w, 'x) tools \<Rightarrow> bool" where
  "daemons_work ts \<longleftrightarrow> (\<forall>a z. fst (generate_to_address ts a z) = Inr ()) \<and> (\<forall>z. fst (generate_one ts z) = Inr ()) \<and>
     (\<forall>z. \<exists>h. fst (get_chain_tip ts z) = Inr h) \<and> (\<forall>h z. fst (wait_for_height ts h z) = Inr ())"

lemma daemons_mine:
  assumes "daemons_work ts"
  shows "fst (mine_rounds ts ext internal is z) = Some (Inr ())"
proof (induction "is" arbitrary: z)
  case (Cons i "is")
  have gen: "\<exists>z1. generate_block ts ext internal m z = (Inr (), z1)" for m
    using assms by (cases m) (auto simp: daemons_work_def prod_eq_iff)
  obtain z1 where 1: "generate_block ts ext internal (target_of i) z = (Inr (), z1)" using gen by blast
  obtain h z2 where 2: "get_chain_tip ts z1 = (Inr h, z2)"
    using assms by (metis daemons_work_def prod.collapse)
  obtain z3 where 3: "wait_for_height ts h z2 = (Inr (), z3)"
    using assms by (metis daemons_work_def prod.collapse)
  show ?case using Cons.IH 1 2 3 by (simp add: Let_def case_prod_beta)
qed simp

lemma sample_tools_work: "daemons_work sample_tools"
  by (auto simp: daemons_work_def sample_tools_def)

theorem mining_follows_pattern_witness:
  "fst (snd (snd (mine_blocks sample_tools ''e'' ''i'' 4 z))) = [ToExternal, ToAnyone, ToAnyone, ToInternal]"
proof -
  obtain r l ms z' where m: "mine_blocks sample_tools ''e'' ''i'' 4 z = (r, l, ms, z')"
    by (metis prod.exhaust)
  with daemons_mine [OF sample_tools_work, of "''e''" "''i''" "map of_nat [0..<unat (4 :: u32)]" z] have "r = Some (Inr ())"
    by (simp add: mine_blocks_def)
  with mining_follows_pattern [OF m] have "prefix ms [ToExternal, ToAnyone, ToAnyone, ToInternal]" "length ms = 4"
    by (simp_all add: upt_rec)
  then obtain zs where "[ToExternal, ToAnyone, ToAnyone, ToInternal] = ms @ zs" by (auto simp: prefix_def)
  moreover from arg_cong [OF this, of length] \<open>length ms = 4\<close> have "zs = []" by simp
  ultimately have "ms = [ToExternal, ToAnyone, ToAnyone, ToInternal]" by simp
  with m show ?thesis by simp
qed

end
