(* ===== verification/ClientRegtest.thy ===== *)
theory ClientRegtest
  imports ProgramProgress Mining
begin

text \<open>
  The example \<open>src/examples/client_regtest.rs\<close>: its constants, its configuration and its \<open>main\<close>.
  Here a wallet follows blocks that the program mines itself; the \<open>select!\<close> races a SIGINT
  against the mining. The test framework \<open>halfin\<close> is a parameter: each of its fallible calls
  before the \<open>select!\<close> succeeds or returns an error, and the mining is that of theory \<open>Mining\<close>.
\<close>

definition DATA_DIR :: string where
  "DATA_DIR = ''./examples/data/client_regtest/''"

definition DESC_EXT :: string where
  "DESC_EXT = ''tr([697412fb/86h/1h/0h]tpubDD5LyUwjWvkndncfQqMcNko6coES1ZehnsqykLLe8E3w7RX5dveHMJrXxhpvYLnSqQBuPVw9Lk7gSYnS9xyoLRQ21xpebdpCFt5ZNyorhHb/0/*)''"

definition DESC_INT :: string where
  "DESC_INT = ''tr([697412fb/86h/1h/0h]tpubDD5LyUwjWvkndncfQqMcNko6coES1ZehnsqykLLe8E3w7RX5dveHMJrXxhpvYLnSqQBuPVw9Lk7gSYnS9xyoLRQ21xpebdpCFt5ZNyorhHb/1/*)''"

definition regtest_logger :: Logger where
  "regtest_logger = \<lparr>log_level = INFO, log_to_stdout = True,
     log_file = Some (path_join DATA_DIR ''client_regtest.log'')\<rparr>"

text \<open>The only peer is the bridge that the program has spawned, at the socket \<open>bridge\<close>.\<close>

definition regtest_config :: "'n \<Rightarrow> SocketAddr \<Rightarrow> ('n, 'r) NodeConfig \<Rightarrow> ('n, 'r) NodeConfig" where
  "regtest_config regtest bridge default_config =
     default_config\<lparr>network := regtest, datadir := path_join DATA_DIR ''bdk_floresta'',
       fixed_peers := Some [bridge]\<rparr>"

text \<open>The wallet of the program, and the two addresses that it has revealed.\<close>

definition regtest_wallet :: "('n, 'v, 'c, 'd) wallet_maker \<Rightarrow> 'n \<Rightarrow> (string \<times> string \<times> 'v) option" where
  "regtest_wallet wm regtest =
     (case create_wallet wm DESC_EXT DESC_INT regtest of
        None \<Rightarrow> None
      | Some w \<Rightarrow>
          (let (address_ext, w1) = reveal wm External w;
               (address_int, w2) = reveal wm Internal w1
           in Some (address_ext, address_int, w2)))"

definition regtest_select :: stmt where
  "regtest_select =
     Select
       [Print ''> RECEIVED `SIGINT`'',
        StopScan, AwaitScan,
        AwaitSubscriber,
        UnwrapWallet,
        PrintBalance ''POST'',
        CancelNode, TakeTask, AwaitTask,
        Print ''> /exit'',
        ReturnOk]
       Mining
       [StopScan, AwaitScan, ReturnOk]"

definition regtest_main :: "stmt list" where
  "regtest_main =
     [InitLogger,
      CreateWallet,
      Tool ''BitcoinD::new_with_conf'', Print ''> BITCOIND: SPAWNED'',
      Tool ''UtreexoD::new_with_conf'', Print ''> UTREEXOD: SPAWNED'',
      Tool ''BitcoinD::generate'',
      Print ''> CONNECTING BITCOIND TO UTREEXOD'', Tool ''connect'',
      Tool ''BitcoinD::get_chain_tip'', Tool ''wait_for_height'',
      Tool ''BitcoinD::get_filter_tip'', Tool ''wait_for_filter_height'',
      BuildNode, CallRun, AwaitRun, Print ''> BDK_FLORESTA: SPAWNED'',
      SpawnActionPrinter,
      NewClient,
      PrintBalance ''PRE'',
      SpawnSubscriber,
      PrintCheckpoint,
      SpawnScan,
      regtest_select]"

text \<open>
  The \<open>k\<close>-th of the ways the mining can go starts in the world \<open>worlds k\<close>. \<open>blocks_var\<close> is the
  environment variable \<open>BLOCKS\<close>.
\<close>

definition regtest_calls ::
  "bool \<Rightarrow> ('f, 'x, 'n, 'r, 'u, 's, 'vm, 'cs, 'k, 'm, 'a, 'inner) builder_lib \<Rightarrow> ('f, 'x) os \<Rightarrow> bool \<Rightarrow>
   'n \<Rightarrow> SocketAddr \<Rightarrow> ('n, 'r) NodeConfig \<Rightarrow> ('b, 'c, 'g, 'd, 't) wallet_lib \<Rightarrow> ('n, 'v, 'c, 'd) wallet_maker \<Rightarrow>
   (string \<Rightarrow> string + unit) \<Rightarrow> ('z, 'n, 'r, 'cs \<times> 'k \<times> 'inner, 'x) tools \<Rightarrow> string option \<Rightarrow> (nat \<Rightarrow> 'z) \<Rightarrow>
   (('x, 'n) ClientError \<Rightarrow> string) \<Rightarrow> ('v, 't, 'c, 'e, 'i) wallet_api \<Rightarrow>
   ('n, 'r, 'cs \<times> 'k \<times> 'inner, 'x, 'f, 'v, 't, 'c, 'e, 'i) program_calls" where
  "regtest_calls oc lib os tty regtest bridge default_config wl wm tool_calls ts blocks_var worlds err_text wapi =
     (let created = regtest_wallet wm regtest;
          mine = (\<lambda>k. case created of
            None \<Rightarrow> None
          | Some (address_ext, address_int, _) \<Rightarrow>
              fst (mine_blocks ts address_ext address_int (blocks_to_mine blocks_var) (worlds k)))
      in example_calls oc lib os tty ''client_regtest=info'' regtest_logger
           (regtest_config regtest bridge default_config) wl wm (map_option (snd \<circ> snd) created)
           tool_calls mine err_text wapi)"

definition regtest_start :: "stmt list" where
  "regtest_start =
     [InitLogger, CreateWallet, Tool ''BitcoinD::new_with_conf'', Print ''> BITCOIND: SPAWNED'',
      Tool ''UtreexoD::new_with_conf'', Print ''> UTREEXOD: SPAWNED'', Tool ''BitcoinD::generate'',
      Print ''> CONNECTING BITCOIND TO UTREEXOD'', Tool ''connect'', Tool ''BitcoinD::get_chain_tip'',
      Tool ''wait_for_height'', Tool ''BitcoinD::get_filter_tip'', Tool ''wait_for_filter_height'',
      BuildNode, CallRun, AwaitRun, Print ''> BDK_FLORESTA: SPAWNED'', SpawnActionPrinter, NewClient,
      PrintBalance ''PRE'', SpawnSubscriber, PrintCheckpoint, SpawnScan]"

lemma regtest_traces:
  "traces regtest_main =
     [regtest_start @ [Print ''> RECEIVED `SIGINT`'', StopScan, AwaitScan, AwaitSubscriber, UnwrapWallet,
        PrintBalance ''POST'', CancelNode, TakeTask, AwaitTask, Print ''> /exit'', ReturnOk],
      regtest_start @ [StopScan, AwaitScan, ReturnOk]]"
  by (simp add: regtest_main_def regtest_select_def regtest_start_def)

interpretation regtest: program_contract
  "regtest_calls oc lib os tty regtest bridge dc wl wm tool_calls ts bv worlds et wa"
  "regtest_config regtest bridge dc" regtest_main
  for oc lib os tty regtest bridge dc wl wm tool_calls ts bv worlds et wa
  unfolding regtest_calls_def Let_def
proof (unfold_locales, goal_cases)
  case 3
  show ?case by (simp add: main_ok_def regtest_traces in_order_def regtest_start_def)
qed (rule example_build_law example_client_law, assumption)+

text \<open>
  The regtest example shuts its node down on the way of the SIGINT only: if it returns \<open>Ok\<close>
  having cancelled the node, the node is shut down to the end, flushed exactly once, and the
  scan and the subscriber are over.
\<close>

theorem regtest_sigint_shuts_down:
  assumes "running_program (regtest_calls oc lib os tty regtest bridge dc wl wm tool_calls ts bv worlds et wa) oc
      regtest_main s" and "ended s = Some (Returned (Inr ()))" and "CancelNode \<in> set (executed s)"
  shows "\<exists>l h r. node_life s = Some l \<and> shutdown_at l = ShutdownDone \<and> flushes l = 1 \<and> kill_signal l \<and>
    cancellation_token l \<and> (\<not> early_shutdown s \<longrightarrow> state l = Inactive) \<and>
    handle s = Some h \<and> token h \<and> task h \<noteq> Running \<and> subscriber s = SubscriberEnded r"
  by (rule regtest.shut_down_at_end [OF assms(1,2)]) (use assms(3) in \<open>auto simp: regtest_traces regtest_start_def\<close>)

text \<open>At the \<open>select!\<close> there is a scan with its handle, and a node whose \<open>run\<close> has returned.\<close>

lemma regtest_select_past:
  assumes "running_program (regtest_calls oc lib os tty regtest bridge dc wl wm tool_calls ts bv worlds et wa) oc
      regtest_main s" and "todo s = [regtest_select]"
  shows "{AwaitRun, SpawnScan} \<subseteq> set (executed s)" and "ended s = None"
proof -
  note ok = regtest.running_ok [OF assms(1)]
  with assms(2) show e: "ended s = None"
    by (auto simp: regtest.program_ok_def outcome_ok_def split: option.splits main_result.splits sum.splits)
  with ok have "on_trace regtest_main s" by (simp add: regtest.program_ok_def outcome_ok_def)
  with assms(2) have "executed s @ [StopScan, AwaitScan, ReturnOk] \<in> set (traces regtest_main)"
    by (simp add: on_trace_def regtest_select_def)
  then have "executed s = regtest_start" by (auto simp: regtest_traces regtest_start_def append_eq_Cons_conv)
  then show "{AwaitRun, SpawnScan} \<subseteq> set (executed s)" by (simp add: regtest_start_def)
qed

lemma regtest_handle:
  assumes "running_program (regtest_calls oc lib os tty regtest bridge dc wl wm tool_calls ts bv worlds et wa) oc
      regtest_main s" and "todo s = [regtest_select]"
  obtains h where "handle s = Some h"
  using regtest_select_past [OF assms] regtest.running_ok [OF assms(1)] that
  by (auto simp: regtest.program_ok_def made_ok_def)

lemma regtest_node:
  assumes "running_program (regtest_calls oc lib os tty regtest bridge dc wl wm tool_calls ts bv worlds et wa) oc
      regtest_main s" and "todo s = [regtest_select]"
  obtains l where "node_life s = Some l" and "reachable oc l" and "run_done (run_at l)"
  using regtest_select_past [OF assms] regtest.running_ok [OF assms(1)] that
  by (cases "node_life s") (auto simp: regtest.program_ok_def node_ok_def)

text \<open>The way of the \<open>select!\<close> when the mining is over: the scan is stopped, and \<open>main\<close> returns.\<close>

lemma stopped_scan_returns:
  assumes "handle s = Some h" and "todo s = [StopScan, AwaitScan, ReturnOk]"
  shows "\<exists>t. rtranclp (program_step su oc) s t \<and> ended t = Some (Returned (Inr ())) \<and> node_life t = node_life s"
proof -
  let ?h = "(snd (stop h))\<lparr>task := Failed\<rparr>"
  let ?s1 = "(next_stmt StopScan [AwaitScan, ReturnOk] s)\<lparr>handle := Some (snd (stop h))\<rparr>"
  have 1: "program_step su oc s ?s1"
    using program_step.main_step [OF assms(2), of su ?s1] assms(1) by (simp add: next_stmt_def)
  obtain s2 where 2: "rtranclp (program_step su oc) ?s1 s2" and s2: "todo s2 = [AwaitScan, ReturnOk]"
    "node_life s2 = node_life s" "\<exists>h'. handle s2 = Some h' \<and> task h' \<noteq> Running"
  proof (cases "task (snd (stop h)) = Running")
    case True
    from program_step.scan_ends [of ?s1 "snd (stop h)" Failed su oc] True
    have "program_step su oc ?s1 (?s1\<lparr>handle := Some ?h, event_sender := SenderDropped\<rparr>)" by simp
    from that [OF r_into_rtranclp [of "program_step su oc", OF this]] show thesis by (simp add: next_stmt_def)
  qed (use that [of ?s1] in \<open>simp add: next_stmt_def\<close>)
  let ?s3 = "next_stmt AwaitScan [ReturnOk] s2"
  let ?s4 = "(next_stmt ReturnOk [] ?s3)\<lparr>ended := Some (Returned (Inr ())), todo := []\<rparr>"
  have 3: "program_step su oc s2 ?s3"
    using program_step.main_step [of s2 AwaitScan "[ReturnOk]" su ?s3] s2 by (auto simp: next_stmt_def)
  have 4: "program_step su oc ?s3 ?s4"
    using program_step.main_step [of ?s3 ReturnOk "[]" su ?s4] by (simp add: next_stmt_def)
  from 1 2 3 4 have "rtranclp (program_step su oc) s ?s4"
    by (meson converse_rtranclp_into_rtranclp rtranclp.rtrancl_into_rtrancl)
  then show ?thesis by (intro exI [of _ ?s4]) (simp add: next_stmt_def s2)
qed

lemma mined_out:
  assumes "todo s = [Select a Mining [StopScan, AwaitScan, ReturnOk]]" and "mining s = MiningWaits"
    and "node_life s = Some l" and "state l = Operational" and "do_mine su k = Some r" and "handle s = Some h"
  shows "\<exists>t. rtranclp (program_step su oc) s t \<and> ended t = Some (Returned (Inr ())) \<and> node_life t = Some l"
proof -
  let ?s1 = "s\<lparr>mining := MiningRuns\<rparr>"
  let ?s2 = "?s1\<lparr>mining := MiningDone r\<rparr>"
  have 1: "program_step su oc s ?s1" by (rule program_step.mining_starts [OF assms(1-4)])
  have 2: "program_step su oc ?s1 ?s2"
    by (rule program_step.mining_ends [of _ a _ "[]", OF _ _ assms(5)]) (use assms(1) in simp_all)
  from program_step.select_mined [of ?s2 a "[StopScan, AwaitScan, ReturnOk]" "[]" r su oc] assms(1)
  obtain s3 where 3: "program_step su oc ?s2 s3" and s3: "handle s3 = Some h" "todo s3 = [StopScan, AwaitScan, ReturnOk]"
    "node_life s3 = Some l" using assms(3,6) by fastforce
  from stopped_scan_returns [OF s3(1,2), of su oc] s3(3) 1 2 3 show ?thesis
    by (metis (no_types, lifting) converse_rtranclp_into_rtranclp)
qed

text \<open>
  C25. When the mining is over before a SIGINT arrives, nobody shuts the node down: if the
  fallible calls succeed and the mining ends, the example can go on to return \<open>Ok\<close> with a node that
  is operational, whose tasks nobody told to stop, and whose chain state was never flushed.
\<close>

theorem regtest_mining_skips_shutdown:
  assumes "smooth (regtest_calls oc lib os tty regtest bridge dc wl wm tool_calls ts bv worlds et wa) p regtest_main"
    and "regtest_wallet wm regtest = Some (ae, ai, w)"
    and "fst (mine_blocks ts ae ai (blocks_to_mine bv) (worlds k)) = Some r"
  shows "\<exists>t l. running_program (regtest_calls oc lib os tty regtest bridge dc wl wm tool_calls ts bv worlds et wa) oc
      regtest_main t \<and> ended t = Some (Returned (Inr ())) \<and> node_life t = Some l \<and> state l = Operational \<and>
    \<not> kill_signal l \<and> \<not> cancellation_token l \<and> flushes l = 0"
proof -
  let ?su = "regtest_calls oc lib os tty regtest bridge dc wl wm tool_calls ts bv worlds et wa"
  obtain s where s: "s = fresh_program p regtest_main" and run: "running_program ?su oc regtest_main s"
    using fresh_program_runs by blast
  have f: "ended s = None" "todo s = regtest_start @ [regtest_select]" "process s = p" "calm s" "mining s = MiningWaits"
    "subscriber s \<noteq> SubscriberEnded (Inl ())" "todo s = regtest_main"
    by (simp_all add: s fresh_program_def calm_def regtest_start_def regtest_main_def)
  have mine: "do_mine ?su k = Some r"
    using assms(2,3) by (simp add: regtest_calls_def Let_def example_calls_def)
  have scanning: "scanning s" by (simp add: s fresh_program_def scanning_def)
  have "\<forall>st \<in> set regtest_start. st \<notin> {CancelNode, AwaitTask, AwaitScan, ReturnOk} \<and> (\<forall>a other b. st \<noteq> Select a other b)"
    by (simp add: regtest_start_def)
  from regtest.gets_past [OF regtest.running_sound [OF run] f(1,2) _ f(6,4) scanning this] assms(1) f(3,5,7)
  obtain t where t: "rtranclp (program_step ?su oc) s t" "ended t = None" "todo t = [regtest_select]" "calm t"
    "mining t = MiningWaits" by auto
  note run_t = running_steps [OF t(1) run]
  from regtest_handle [OF run_t t(3)] obtain h where h: "handle t = Some h" by blast
  from regtest_node [OF run_t t(3)] obtain l where l: "node_life t = Some l" "reachable oc l" "run_done (run_at l)" by blast
  with t(4) calm_becomes_operational [OF _ l(3) reachable_inv [OF l(2)], of oc] obtain l' where
    l': "rtranclp (task_step oc) l l'" "state l' = Operational" "\<not> kill_signal l'" "\<not> cancellation_token l'" "flushes l' = 0"
    by (auto simp: calm_def)
  let ?t = "t\<lparr>node_life := Some l'\<rparr>"
  note run_t' = running_steps [OF task_steps_lift [OF l'(1) l(1)] run_t]
  obtain a where "todo ?t = [Select a Mining [StopScan, AwaitScan, ReturnOk]]" using t(3) by (simp add: regtest_select_def)
  from mined_out [OF this _ _ l'(2) mine, of h oc] t(5) h obtain u where
    "rtranclp (program_step ?su oc) ?t u" "ended u = Some (Returned (Inr ()))" "node_life u = Some l'" by auto
  with running_steps [OF this(1) run_t'] l' show ?thesis by blast
qed

section \<open>A concrete process\<close>

text \<open>Daemons whose calls succeed, and a node that never reports the block.\<close>

definition sample_daemons :: "(u32 \<times> nat, nat, nat, unit \<times> string \<times> nat, nat) tools" where
  "sample_daemons = \<lparr>generate_to_address = (\<lambda>_ (h, t). (Inr (), h + 1, t)), generate_one = (\<lambda>(h, t). (Inr (), h + 1, t)),
     get_chain_tip = (\<lambda>(h, t). (Inr h, h, t)), wait_for_height = (\<lambda>_ z. (Inr (), z)), asleep = (\<lambda>ms (h, t). (h, t + ms)),
     node_now = (\<lambda>_. sample_node ((), [], 0) Operational), chain_block_hash = (\<lambda>_ _. Inl 0)\<rparr>"

definition sample_regtest ::
  "(nat, nat, unit \<times> string \<times> nat, nat, string list, u32, BlockHash list, u32, nat, nat) program_calls" where
  "sample_regtest = regtest_calls True sample_builder_lib sample_quiet_os False 2 (SocketAddrV4 127 0 0 1 18444)
     (node_config_default 2 dec ''/ua/'' []) sample_lib sample_maker (\<lambda>_. Inr ()) sample_daemons (Some ''3'')
     (\<lambda>_. (0, 0)) (\<lambda>_. []) sample_api"

lemma sample_regtest_calls:
  "\<exists>g p. do_init sample_regtest sample_process = (Inr g, p)" "\<exists>n p'. do_build sample_regtest p = (Inr n, p')"
  by (cases "parent (path_join DATA_DIR ''client_regtest.log'')")
    (auto simp: sample_regtest_def regtest_calls_def Let_def example_calls_def logger_init_def logfile_layer_def
      regtest_logger_def build_eqs regtest_config_def node_config_default_def)

lemma sample_regtest_smooth: "smooth sample_regtest sample_process regtest_main"
proof -
  obtain g p where "do_init sample_regtest sample_process = (Inr g, p)" using sample_regtest_calls(1) by blast
  moreover obtain n p' where "do_build sample_regtest p = (Inr n, p')" using sample_regtest_calls(2) by blast
  moreover have "do_create sample_regtest = Some 5" "do_tool sample_regtest = (\<lambda>_. Inr ())"
    by (simp_all add: sample_regtest_def regtest_calls_def regtest_wallet_def Let_def example_calls_def sample_maker_def)
  ultimately show ?thesis by (simp add: smooth_def regtest_traces regtest_start_def call_ok_def)
qed

theorem regtest_sigint_shuts_down_witness:
  "\<exists>s l. running_program sample_regtest True regtest_main s \<and> node_life s = Some l \<and> flushes l = 1"
proof -
  obtain s where s: "s = fresh_program sample_process regtest_main" and run: "running_program sample_regtest True regtest_main s"
    using fresh_program_runs by blast
  have f: "subscriber s \<noteq> SubscriberEnded (Inl ())" "ended s = None" "process s = sample_process" "todo s = regtest_main"
    "executed s = []"
    by (simp_all add: s fresh_program_def)
  from regtest.can_end [OF regtest.running_sound [OF run [unfolded sample_regtest_def]] f(2) _ f(1)] sample_regtest_smooth f(3-5)
  obtain t where t: "rtranclp (program_step sample_regtest True) s t" "ended t = Some (Returned (Inr ()))"
    "executed t = hd (traces regtest_main)"
    unfolding sample_regtest_def by auto
  have "CancelNode \<in> set (executed t)" by (simp add: t(3) regtest_traces)
  from regtest_sigint_shuts_down [OF running_steps [OF t(1) run, unfolded sample_regtest_def] t(2) this]
    running_steps [OF t(1) run] show ?thesis by blast
qed

theorem regtest_mining_skips_shutdown_witness:
  "\<exists>t l. running_program sample_regtest True regtest_main t \<and> ended t = Some (Returned (Inr ())) \<and>
     node_life t = Some l \<and> state l = Operational \<and> flushes l = 0"
proof -
  have "daemons_work sample_daemons" by (auto simp: daemons_work_def sample_daemons_def)
  then have mine: "fst (mine_blocks sample_daemons ''addr'' ''addr'' (blocks_to_mine (Some ''3'')) ((\<lambda>_. (0, 0)) (0 :: nat))) =
      Some (Inr ())"
    by (simp add: mine_blocks_def daemons_mine)
  have wallet: "regtest_wallet sample_maker (2 :: nat) = Some (''addr'', ''addr'', 5)"
    by (simp add: regtest_wallet_def sample_maker_def)
  from regtest_mining_skips_shutdown [OF sample_regtest_smooth [unfolded sample_regtest_def] wallet mine]
  show ?thesis unfolding sample_regtest_def by metis
qed

end
