(* ===== verification/UserAgent.thy ===== *)
theory UserAgent
  imports Paths
begin

text \<open>
  \<open>src/build.rs\<close>: the user agent of the node, made of the package's version and of the version
  of the \<open>floresta-wire\<close> dependency, which is looked up in \<open>Cargo.toml\<close> and then in
  \<open>Cargo.lock\<close>. Strings are their UTF-8 bytes. \<open>read\<close> is the reading of a file and \<open>parse\<close> the
  TOML library. A script that panics gives \<open>Inl ()\<close>.
\<close>

text \<open>The values of the TOML library; numbers, dates and booleans are \<open>Other\<close>.\<close>

datatype toml = Str string | Table "(string \<times> toml) list" | Arr "toml list" | Other

fun as_str :: "toml \<Rightarrow> string option" where
  "as_str (Str s) = Some s"
| "as_str _ = None"

fun as_table :: "toml \<Rightarrow> (string \<times> toml) list option" where
  "as_table (Table t) = Some t"
| "as_table _ = None"

fun as_array :: "toml \<Rightarrow> toml list option" where
  "as_array (Arr vs) = Some vs"
| "as_array _ = None"

fun get :: "toml \<Rightarrow> string \<Rightarrow> toml option" where
  "get (Table t) k = map_of t k"
| "get _ k = None"

definition get_str :: "toml \<Rightarrow> string \<Rightarrow> string option" where
  "get_str v k = Option.bind (get v k) as_str"

text \<open>
  \<open>&s[..7.min(s.len())]\<close>: a slice of the bytes, which panics inside a character, that is
  before a continuation byte.
\<close>

definition char_boundary :: "string \<Rightarrow> nat \<Rightarrow> bool" where
  "char_boundary s n \<longleftrightarrow>
     n = length s \<or> n < length s \<and> \<not> (128 \<le> (of_char (s ! n) :: nat) \<and> (of_char (s ! n) :: nat) < 192)"

definition short_hash :: "string \<Rightarrow> unit + string" where
  "short_hash s =
     (let n = min 7 (length s) in if char_boundary s n then Inr (''git-'' @ take n s) else Inl ())"

definition dep_version :: "toml \<Rightarrow> unit + string option" where
  "dep_version dep =
     (let plain = Inr (case as_str dep of Some s \<Rightarrow> Some s | None \<Rightarrow> None) in
      case as_table dep of
        None \<Rightarrow> plain
      | Some t \<Rightarrow>
          let version = (case get_str dep ''version'' of Some v \<Rightarrow> Inr (Some v) | None \<Rightarrow> plain) in
          if map_of t ''git'' \<noteq> None \<and> map_of t ''rev'' \<noteq> None
          then (case get_str dep ''rev'' of
                  Some commit \<Rightarrow> and_then (short_hash commit) (\<lambda>h. Inr (Some h))
                | None \<Rightarrow> version)
          else version)"

fun find_in_sections :: "toml \<Rightarrow> string \<Rightarrow> string list \<Rightarrow> unit + string option" where
  "find_in_sections manifest dep_name [] = Inr None"
| "find_in_sections manifest dep_name (section # rest) =
     (case Option.bind (get manifest section) (\<lambda>deps. get deps dep_name) of
        None \<Rightarrow> find_in_sections manifest dep_name rest
      | Some dep \<Rightarrow>
          and_then (dep_version dep) (\<lambda>v.
            case v of Some _ \<Rightarrow> Inr v | None \<Rightarrow> find_in_sections manifest dep_name rest))"

definition source_version_from_cargo_toml ::
  "(string \<Rightarrow> string option) \<Rightarrow> (string \<Rightarrow> toml option) \<Rightarrow> string \<Rightarrow> unit + string option" where
  "source_version_from_cargo_toml read parse dep_name =
     (case Option.bind (read ''Cargo.toml'') parse of
        None \<Rightarrow> Inr None
      | Some manifest \<Rightarrow>
          find_in_sections manifest dep_name [''dependencies'', ''dev-dependencies'', ''build-dependencies''])"

text \<open>\<open>source.split('#').nth(1)\<close>: what follows the first mark, up to the next one.\<close>

definition after_hash :: "string \<Rightarrow> string option" where
  "after_hash s =
     (case dropWhile (\<lambda>c. c \<noteq> CHR ''#'') s of
        [] \<Rightarrow> None
      | _ # rest \<Rightarrow> Some (takeWhile (\<lambda>c. c \<noteq> CHR ''#'') rest))"

definition package_version :: "toml \<Rightarrow> unit + string option" where
  "package_version package =
     (case get_str package ''source'' of
        Some source \<Rightarrow>
          (case (if prefix ''git+'' source then after_hash source else None) of
             Some commit \<Rightarrow> and_then (short_hash commit) (\<lambda>h. Inr (Some h))
           | None \<Rightarrow> Inr (get_str package ''version''))
      | None \<Rightarrow> Inr (get_str package ''version''))"

fun find_in_packages :: "string \<Rightarrow> toml list \<Rightarrow> unit + string option" where
  "find_in_packages dep_name [] = Inr None"
| "find_in_packages dep_name (package # rest) =
     (case get_str package ''name'' of
        None \<Rightarrow> Inr None
      | Some name \<Rightarrow> if name = dep_name then package_version package else find_in_packages dep_name rest)"

definition source_version_from_cargo_lock ::
  "(string \<Rightarrow> string option) \<Rightarrow> (string \<Rightarrow> toml option) \<Rightarrow> string \<Rightarrow> unit + string option" where
  "source_version_from_cargo_lock read parse dep_name =
     (case Option.bind (Option.bind (read ''Cargo.lock'') parse)
             (\<lambda>lock. Option.bind (get lock ''package'') as_array) of
        None \<Rightarrow> Inr None
      | Some packages \<Rightarrow> find_in_packages dep_name packages)"

definition source_dependency_version ::
  "(string \<Rightarrow> string option) \<Rightarrow> (string \<Rightarrow> toml option) \<Rightarrow> string \<Rightarrow> unit + string option" where
  "source_dependency_version read parse dep =
     and_then (source_version_from_cargo_toml read parse dep) (\<lambda>v.
       case v of
         Some version \<Rightarrow> Inr (Some version)
       | None \<Rightarrow> source_version_from_cargo_lock read parse dep)"

definition get_bdk_floresta_version ::
  "(string \<Rightarrow> string option) \<Rightarrow> (string \<Rightarrow> toml option) \<Rightarrow> unit + string" where
  "get_bdk_floresta_version read parse =
     (case Option.bind (read ''Cargo.toml'') parse of
        None \<Rightarrow> Inl ()
      | Some manifest \<Rightarrow>
          (case Option.bind (get manifest ''package'') (\<lambda>p. get_str p ''version'') of
             None \<Rightarrow> Inl ()
           | Some v \<Rightarrow> Inr (CHR ''v'' # v)))"

definition user_agent_of :: "string \<Rightarrow> string \<Rightarrow> string" where
  "user_agent_of wire_version bdk_version =
     ''/floresta-wire:'' @ wire_version @ ''/bdk-floresta:'' @ filter (\<lambda>c. c \<noteq> CHR ''v'') bdk_version @ ''/''"

text \<open>The lines the script prints.\<close>

definition build_script_main ::
  "(string \<Rightarrow> string option) \<Rightarrow> (string \<Rightarrow> toml option) \<Rightarrow> unit + string list" where
  "build_script_main read parse =
     and_then (get_bdk_floresta_version read parse) (\<lambda>bdk_floresta_version.
     and_then (source_dependency_version read parse ''floresta-wire'') (\<lambda>v.
     and_then (ok_or () v) (\<lambda>floresta_wire_version.
     let user_agent = user_agent_of floresta_wire_version bdk_floresta_version in
     Inr [''cargo:rustc-env=USER_AGENT='' @ user_agent,
          ''cargo:rustc-env=GIT_DESCRIBE='' @ bdk_floresta_version,
          ''cargo:rustc-env=FLORESTA_WIRE_VERSION='' @ floresta_wire_version,
          ''cargo:rerun-if-changed=.git/HEAD'',
          ''cargo:rerun-if-changed=build.rs'',
          ''cargo:rerun-if-changed=Cargo.toml'',
          ''cargo:rerun-if-changed=Cargo.lock''])))"

lemma split_two_components:
  assumes "CHR ''/'' \<notin> set a" and "CHR ''/'' \<notin> set b"
  shows "split_at_slash (CHR ''/'' # a @ CHR ''/'' # b @ [CHR ''/'']) = [[], a, b, []]"
  using assms by (simp add: split_at_slash_append)

text \<open>
  The user agent has exactly two components, whichever slash-free versions it is made of,
  and the second one carries the version of the package exactly if that has no letter \<open>v\<close>:
  the script strips every \<open>v\<close>, not the one it put in front.
\<close>

theorem user_agent_components:
  assumes "CHR ''/'' \<notin> set wire" and "CHR ''/'' \<notin> set version"
  shows "split_at_slash (user_agent_of wire (CHR ''v'' # version)) =
      [[], ''floresta-wire:'' @ wire, ''bdk-floresta:'' @ filter (\<lambda>c. c \<noteq> CHR ''v'') version, []] \<and>
    (last (butlast (split_at_slash (user_agent_of wire (CHR ''v'' # version)))) = ''bdk-floresta:'' @ version \<longleftrightarrow>
      CHR ''v'' \<notin> set version)"
proof -
  let ?w = "''floresta-wire:'' @ wire" and ?b = "''bdk-floresta:'' @ filter (\<lambda>c. c \<noteq> CHR ''v'') version"
  have ua: "user_agent_of wire (CHR ''v'' # version) = CHR ''/'' # ?w @ CHR ''/'' # ?b @ [CHR ''/'']"
    by (simp add: user_agent_of_def)
  have "CHR ''/'' \<notin> set ?w" "CHR ''/'' \<notin> set ?b" using assms by auto
  from split_two_components [OF this]
  have s: "split_at_slash (user_agent_of wire (CHR ''v'' # version)) = [[], ?w, ?b, []]"
    unfolding ua .
  have "filter (\<lambda>c. c \<noteq> CHR ''v'') version = version \<longleftrightarrow> CHR ''v'' \<notin> set version"
    by (auto simp: filter_id_conv)
  with s show ?thesis by simp
qed

theorem user_agent_components_witness:
  "split_at_slash (user_agent_of ''git-d79e135'' ''v0.1.0-dev'') =
     [[], ''floresta-wire:git-d79e135'', ''bdk-floresta:0.1.0-de'', []]"
  using user_agent_components [of "''git-d79e135''" "''0.1.0-dev''"] by simp

lemma short_hash_prefix: "short_hash s = Inr h \<Longrightarrow> \<exists>p. h = ''git-'' @ p \<and> prefix p s \<and> length p \<le> 7"
  by (auto simp: short_hash_def Let_def take_is_prefix split: if_splits)

text \<open>
  In a lock file the first package of that name decides, whatever follows it: of several
  locked versions of the dependency only the first is reported, and a package without a name in
  front of it hides it.
\<close>

theorem first_locked_package_decides:
  assumes "\<And>p. p \<in> set before \<Longrightarrow> get_str p ''name'' \<noteq> Some dep"
    and "get_str package ''name'' = Some dep"
  shows "find_in_packages dep (before @ package # rest) =
    (if \<exists>p \<in> set before. get_str p ''name'' = None then Inr None
     else package_version package)"
  using assms(1)
proof (induction before)
  case Nil
  then show ?case using assms(2) by simp
next
  case (Cons p before)
  then show ?case by (cases "get_str p ''name''") auto
qed

definition locked :: "string \<Rightarrow> string \<Rightarrow> toml" where
  "locked name version = Table [(''name'', Str name), (''version'', Str version)]"

theorem first_locked_package_decides_witness:
  "find_in_packages ''wire'' [locked ''toml'' ''1'', locked ''wire'' ''2'', locked ''wire'' ''3''] = Inr (Some ''2'')"
proof -
  have "get_str p ''name'' \<noteq> Some ''wire''" if "p \<in> set [locked ''toml'' ''1'']" for p
    using that by (simp add: locked_def get_str_def)
  from first_locked_package_decides [OF this, where package = "locked ''wire'' ''2''"
      and rest = "[locked ''wire'' ''3'']"]
  show ?thesis by (simp add: locked_def get_str_def package_version_def)
qed

end
