(* ===== verification/Spec2Isabelle.thy ===== *)
theory Spec2Isabelle
  imports ScanHandle Protocol Polling Shutdown Printers ClientSignet ClientRegtest UserAgent
begin

text \<open>
  A verification library for bdk-floresta: a Bitcoin node library that wraps the Floresta node
  (\<open>src/src/node\<close>) and a wallet client that scans the chain with compact block filters through it
  (\<open>src/src/client\<close>), with a logger, a builder, a build script and two example programs.

  The parts and how they interact. A \<open>Builder\<close> makes a \<open>Node\<close>, opening the stores and the inner
  node of the library. \<open>Node::run\<close> spawns the inner node, a task that polls the heights and moves
  the node's state machine, and a task that carries out a shutdown. Users call the node's network
  methods, which ask the inner node and track an action while they wait, and subscribe to the
  node's states and actions. A \<open>Client\<close> waits until the node is operational, asks it for the blocks
  whose filters match the wallet's scripts, applies the relevant ones to a transaction graph and
  sends updates to a subscriber; a continuous scan goes on with the blocks that the node forwards
  as it validates them. A shutdown of the node cancels the client and drops its event channel. The
  examples put it all together: a node, a client whose continuous scan runs as a task, a subscriber
  that applies the updates to a wallet, and a shutdown in order.

  The theories, bottom up:
    \<^item> \<open>Prelude\<close>: machine integers with their overflow, the Result and Option combinators, decimal
      formatting, mutexes with poisoning, computations with a state and an error.
    \<^item> \<open>Fsm\<close> (\<open>node/fsm.rs\<close>, the polling of \<open>node/mod.rs\<close>): states, transition function, one poll.
    \<^item> \<open>Sockets\<close>, \<open>Actions\<close>, \<open>NodeErrors\<close>: address conversion, the set of actions in flight, errors.
    \<^item> \<open>Node\<close> (\<open>node/mod.rs\<close>): configuration, fields, methods. The locale \<open>tracked_call\<close> is the
      contract of the methods that await the inner node; it is interpreted on all seven.
    \<^item> \<open>Lifecycle\<close> (\<open>node/mod.rs\<close>): \<open>run\<close>, the polling task, the shutdown task and \<open>shutdown\<close>, one
      statement per step, with reachability and invariants over all interleavings.
    \<^item> \<open>Protocol\<close>: the abstract account of what a node shows in its life. The locale \<open>simulation\<close>
      carries a step-by-step simulation over to whole runs; its interpretation on the steps of
      \<open>Lifecycle\<close> makes every run of the node a run of the protocol, from which the sequences of
      states an observer can see follow.
    \<^item> \<open>Polling\<close>, \<open>Shutdown\<close> (\<open>node/mod.rs\<close>): the polling task and the shutdown task in one piece,
      with the sleeps, the timeouts and everything they log, and their agreement with the steps of
      \<open>Lifecycle\<close>.
    \<^item> \<open>ClientErrors\<close>, \<open>ScanHandle\<close>, \<open>Forwarding\<close>: errors, the handle of a spawned scan, and the
      block sink with its guard. The locale \<open>fifo_channel\<close> of \<open>Channel\<close> is the contract between
      the sink and the scan that receives from it, interpreted on the sink.
    \<^item> \<open>Client\<close> (\<open>client/mod.rs\<close>): construction, drop, script derivation, updates, events, the wait.
    \<^item> \<open>Watch\<close>: the watch channels as their receivers see them (locale \<open>watch_channel\<close>), and the
      wait of the client statement by statement on the channel of the states.
    \<^item> \<open>Scan\<close>, \<open>Continuous\<close> (\<open>client/mod.rs\<close>): \<open>scan_inner\<close>, \<open>scan\<close>, \<open>scan_continuous\<close>. The locale
      \<open>restoring_call\<close> is what a scan relies on of the node's methods, interpreted on them.
    \<^item> \<open>Relations\<close>: the locale \<open>client_relation\<close>, extended by \<open>forwarding_relation\<close> in \<open>Continuous\<close>:
      a relation that the other tasks keep, and that no access of a client breaks, is kept by every
      computation of the client. Each thing proved of a client under interference is one of its
      interpretations.
    \<^item> \<open>System\<close>, \<open>Composed\<close>: a client next to the tasks the code has, the node's, the watcher of
      \<open>Client::new\<close>, the holders of its token and the validation of blocks. \<open>system_env\<close> says that
      the interference is made of their steps; what the theories of the client rely on is proved
      of it, up to the shutdown of the node, and the properties are restated without it.
    \<^item> \<open>Paths\<close>, \<open>Logger\<close>, \<open>Builder\<close>, \<open>UserAgent\<close>: \<open>logger.rs\<close>, \<open>node/builder.rs\<close>, \<open>build.rs\<close>.
    \<^item> \<open>Subscriber\<close>, \<open>Printers\<close>, \<open>Mining\<close>: the tasks of the examples and the mining loop.
    \<^item> \<open>Programs\<close>: how a \<open>main\<close> runs, as a list of statements next to the node's tasks, the scan
      and the subscriber, with the channel of events between them. The locale \<open>program_contract\<close> states what is relied on of the build, of
      \<open>Client::new\<close> and of the list; \<open>ProgramFacts\<close>, \<open>ProgramWallet\<close> and \<open>ProgramProgress\<close> prove in
      it what holds of every such program, what becomes of its wallet, and that it gets on, and \<open>ClientSignet\<close> and \<open>ClientRegtest\<close> interpret it on
      \<open>src/examples\<close>.
    \<^item> this theory: the properties that span the builder, the node and the client.

  How state corresponds to the code. A struct is a record with the code's fields. A watch channel
  is the value last sent, with a count of the sends where a receiver waits on it, a cancellation
  token is whether it is cancelled, a \<open>Mutex<Option<_>>\<close> is whether it holds a value (with its
  poisoning where the code looks at it), an unbounded channel is the list of its unread messages.
  A method that changes \<open>self\<close> and leaves by \<open>?\<close> is a computation that passes the state and stops at
  the first error. Everything that is awaited or shared can be changed by other tasks in between:
  the node's methods take what they do as \<open>env\<close>, and a client's computations take \<open>env i\<close> for the
  access numbered \<open>i\<close>; what is assumed of it is stated, and discharged in \<open>Composed\<close>. The libraries
  behind the code (chain state, filters, inner node, wallet structures, subscriber, TOML parser,
  file system, the daemons of the regtest example) are parameters. What is relied on of them is
  stated where it is used: \<open>try_join_law\<close> for the joining of futures and \<open>insert_extends\<close> for the
  checkpoints, each shown to hold of a concrete instance.

  Bounds and fuel. \<open>wait_until_ready\<close> takes the list of its wake-ups and \<open>continuous_loop\<close> the number
  of its polls; a schedule that runs out is a task that is still suspended, the result \<open>None\<close>, so
  a property that holds for every list and number holds for every execution, and what happens at
  all is stated as such (\<open>wait_until_ready_returns\<close>, \<open>cancelled_scan_returns\<close>, \<open>shutdown_completes\<close>).
  The wait after each mined block needs no fuel: it terminates by its timeout. Heights are 32-bit
  words, sizes are 64-bit words, and the build mode decides whether an overflow panics or wraps.

  What the groups of lemmas show: that polls, the lifecycle and the methods keep their invariants
  in every interleaving; that a shutdown completes, in order, reports each failure, and silences
  the clients; that a client stays well-formed; that scans publish exactly the blocks they applied,
  end at the filter tip, lose no block between the scan and the continuous loop, and can be
  stopped; that no wake-up is lost; the errors and cancellations of each; that the examples end
  with the node shut down and can always be ended; that the balance the signet example prints is
  of the wallet with the updates of its scan, up to the client's checkpoint; and where the code departs from its
  documentation (the tolerance of the state machine, the last revealed script, tracked actions of
  dropped calls, a shutdown that overtakes \<open>run\<close>, a build that cannot be repeated, a mining that
  ends without a shutdown).

  Not modelled: the libraries themselves, the module declarations and re-exports of \<open>lib.rs\<close>, the
  durations of sleeps and timeouts beyond those counted in \<open>Polling\<close> and \<open>Mining\<close> (how long a timeout
  takes does not matter to what follows it), and memory.
\<close>

section \<open>From the builder to the running node\<close>

lemma step_config: "step oc s t \<Longrightarrow> config t = config s"
proof (induction rule: step.induct)
  case (run_goes_on now s t)
  then show ?case by (auto simp: run_return_def split: run_pc.splits option.splits)
next
  case (shutdown_goes_on s t)
  then show ?case by (auto split: shutdown_pc.splits)
qed (auto simp: step_defs split: option.splits prod.splits)

lemma steps_config: "steps oc s t \<Longrightarrow> config t = config s"
  by (induction rule: steps.induct) (simp_all add: step_config)

text \<open>
  C34. For its whole life, in every interleaving of its tasks, a node that was built keeps the
  configuration of the builder; and it is in a synchronisation state or operational only after
  a call of \<open>run\<close> returned \<open>Ok\<close>.
\<close>

theorem built_node_life:
  assumes "build oc lib os rust_log tty b w = (Inr n, w')" and "steps oc' (start_sys n) t"
  shows "config t = builder_config b \<and> (\<not> frozen (state t) \<longrightarrow> Inr () \<in> set (run_results t))"
proof -
  have c: "config n = builder_config b" using build_fresh [OF assms(1)] by blast
  from steps_reachable [OF assms(2) reachable.start [OF build_fresh [OF assms(1), THEN conjunct2]]]
  have "lifecycle_inv t" by (rule reachable_inv)
  then have s: "state_inv t" and r: "results_inv t" by (simp_all add: lifecycle_inv_def)
  have "Inr () \<in> set (run_results t)" if "\<not> frozen (state t)"
  proof -
    from s that have "run_done (run_at t)" by (auto simp: state_inv_def split: if_splits)
    with r have "Inr () \<in> set (filter (\<lambda>x. x \<noteq> Inl AlreadyRunning) (run_results t))"
      by (simp add: results_inv_def)
    then show ?thesis by simp
  qed
  with steps_config [OF assms(2)] c show ?thesis by (simp add: start_sys_def)
qed

theorem built_node_life_witness:
  "\<exists>n. fst (build True sample_builder_lib sample_quiet_os None False sample_builder sample_process) = Inr n \<and>
     config (run_take (start_sys n :: (nat, nat, unit \<times> string \<times> nat, nat) sys)) = builder_config sample_builder"
proof -
  obtain n w' where b: "build True sample_builder_lib sample_quiet_os None False sample_builder sample_process =
      (Inr n, w')" by (simp add: build_eqs)
  have "steps True (start_sys n) (run_take (start_sys n :: (nat, nat, unit \<times> string \<times> nat, nat) sys))"
    by (rule steps_trans [OF step.call_run steps_refl])
  from built_node_life [OF b this] b show ?thesis by auto
qed

section \<open>From the node to a waiting client\<close>

lemma synced_poll:
  assumes "wire_ready o1" and "best_block o1 = Inr (h, x)" and "validation_index o1 = Inr h"
    and "filter_tip o1 = Inr h" and "0 < h" and "unat h < 2 ^ 32 - 6" and "\<not> frozen st"
  shows "\<exists>b. status_poll oc o1 st = Some (Operational, b)"
proof -
  have "compute_next_state oc True st h h h = Some Operational"
    unfolding compute_next_state_not_frozen [OF assms(7)] compute_next_state_Active [OF assms(6)]
    using assms(5) by auto
  with assms show ?thesis
    by (auto simp: status_poll_def send_next_state_def)
qed



end
